theory Spec2Isabelle
  imports Main "HOL-Library.Word"
begin

section \<open>Durations and contexts\<close>

text \<open>
  A \<open>time.Duration\<close> is a signed 64-bit count of nanoseconds. The constants of the program
  are far from the bounds, so they are written as integers; the one duration that is computed
  (the backoff) is computed on \<open>64 word\<close> and read back with \<open>sint\<close>.
\<close>

type_synonym Duration = int

definition Second :: Duration where
  "Second = 1000000000"

definition Minute :: Duration where
  "Minute = 60 * Second"

text \<open>
  The contexts the program builds: \<open>context.Background()\<close>, the context of an inbound HTTP
  request, and the two derivations used in the source.
\<close>

datatype "context" =
    Background
  | RequestContext
  | WithCancel "context"
  | WithTimeout "context" Duration

text \<open>The longest time a context can stay alive after it is built: the tightest timeout on its chain.\<close>

fun Deadline :: "context \<Rightarrow> Duration option" where
  "Deadline Background = None"
| "Deadline RequestContext = None"
| "Deadline (WithCancel parent) = Deadline parent"
| "Deadline (WithTimeout parent d) =
     (case Deadline parent of None \<Rightarrow> Some d | Some d' \<Rightarrow> Some (min d d'))"

section \<open>Data\<close>

text \<open>\<open>client.PostResponse\<close>: one post of the external API.\<close>

record PostResponse =
  PostUserID :: int
  PostID :: int
  PostTitle :: string
  PostBody :: string

type_synonym Time = int

text \<open>\<open>database.Item\<close>: one row of the table \<open>items\<close>.\<close>

record Item =
  ID :: int
  ExternalID :: string
  Title :: string
  Body :: string
  UserID :: int
  CreatedAt :: Time
  UpdatedAt :: Time

text \<open>The errors the program builds, one constructor per format string, wrapped errors nested.\<close>

datatype error =
    ContextErr "context"                \<comment> \<open>\<open>ctx.Err()\<close>\<close>
  | CreateRequestFailed                 \<comment> \<open>failed to create request\<close>
  | RequestFailed                       \<comment> \<open>request failed\<close>
  | ReadBodyFailed                      \<comment> \<open>failed to read response body\<close>
  | UnmarshalFailed                     \<comment> \<open>failed to unmarshal response\<close>
  | ServerError int                     \<comment> \<open>server error: %d\<close>
  | RateLimited int                     \<comment> \<open>rate limited: %d\<close>
  | ClientError int                     \<comment> \<open>client error: %d\<close>
  | UnexpectedStatus int                \<comment> \<open>unexpected status code: %d\<close>
  | MaxRetriesExceeded "error option"   \<comment> \<open>max retries exceeded, last error: %w\<close>
  | FetchPostsFailed error              \<comment> \<open>failed to fetch posts: %w\<close>
  | SyncErrors nat nat                  \<comment> \<open>sync completed with %d errors out of %d items\<close>
  | ExecError                           \<comment> \<open>the error of \<open>db.Exec\<close>\<close>
  | QueryError                          \<comment> \<open>the error of \<open>db.Query\<close>\<close>
  | RedisNil                            \<comment> \<open>\<open>redis.Nil\<close>: the key is absent or expired\<close>
  | RedisError                          \<comment> \<open>any other error of a Redis command or of the JSON codec\<close>

text \<open>The lines the logger receives.\<close>

datatype log_entry =
    StartingDataSync
  | FetchedPosts nat
  | FailedToUpsertItem string error
  | FailedToInvalidateCache error
  | DataSyncCompleted nat nat           \<comment> \<open>\<open>success_count\<close>, \<open>error_count\<close>\<close>
  | ManualSyncRequested
  | ManualSyncFailed error
  | ItemsServedFromCache
  | FailedToGetItems error
  | FailedToCacheItems error
  | ItemsServedFromDatabase nat

text \<open>What a run does to the outside, in order.\<close>

datatype event =
    Sleep Duration                      \<comment> \<open>\<open>time.After(backoff)\<close> fired\<close>
  | HttpGet "context" string            \<comment> \<open>\<open>client.Do\<close> of a GET request\<close>
  | Exec Item                           \<comment> \<open>the upsert statement, sent with the item's columns\<close>
  | Query                               \<comment> \<open>the select of \<open>GetAllItems\<close>\<close>
  | RedisGet "context" string
  | RedisSet "context" string Duration
  | RedisKeys "context" string
  | RedisDel "context" "string list"
  | Log log_entry

section \<open>The outside world\<close>

text \<open>What \<open>client.Do\<close> gives back: no response at all, or a status with a body.\<close>

datatype body =
    Unreadable                          \<comment> \<open>\<open>io.ReadAll\<close> fails\<close>
  | Malformed                           \<comment> \<open>\<open>json.Unmarshal\<close> fails\<close>
  | Posts "PostResponse list"

datatype reply =
    NoResponse
  | Response int body

text \<open>
  Everything the program does not decide: whether the URL makes a request, whether the context
  is done before the timer of a backoff fires, what the server answers to each attempt, whether
  a statement or a Redis command fails, what \<open>NOW()\<close> is for each statement of a run, and
  the time at which Redis serves the commands of one operation.
\<close>

record world =
  bad_url :: "string \<Rightarrow> bool"
  ctx_done :: "context \<Rightarrow> nat \<Rightarrow> bool"
  do_request :: "context \<Rightarrow> string \<Rightarrow> nat \<Rightarrow> reply"
  exec_fails :: "nat \<Rightarrow> bool"
  db_now :: "nat \<Rightarrow> Time"
  query_fails :: bool
  get_fails :: bool
  set_fails :: bool
  keys_fails :: bool
  del_fails :: bool
  redis_now :: Time

section \<open>The client (\<open>internal/client/client.go\<close>)\<close>

record ExternalAPIClient =
  baseURL :: string

text \<open>
  \<open>time.Duration(1<<uint(attempt-1)) * time.Second\<close>, on 64 bits; the loop computes it for
  \<open>attempt > 0\<close> only.
\<close>

definition backoff :: "nat \<Rightarrow> Duration" where
  "backoff attempt = sint (push_bit (attempt - 1) (1 :: 64 word) * 1000000000)"

text \<open>Puts the events of a step before the events of the rest of the run.\<close>

fun after :: "event list \<Rightarrow> 'a \<times> event list \<Rightarrow> 'a \<times> event list" where
  "after es (r, tr) = (r, es @ tr)"

text \<open>
  The loop of \<open>retryRequest\<close>, from \<open>attempt\<close> on, with \<open>lastErr\<close> as it stands. The result
  is the error or the decoded posts, with the events of the call. The counter starts at 0 and
  only grows, so it is a natural number.
\<close>

function retryLoop ::
  "world \<Rightarrow> context \<Rightarrow> string \<Rightarrow> int \<Rightarrow> nat \<Rightarrow> error option
     \<Rightarrow> (error + PostResponse list) \<times> event list" where
  "retryLoop w ctx url maxRetries attempt lastErr =
     (if int attempt \<le> maxRetries then
        if 0 < attempt \<and> ctx_done w ctx attempt then (Inl (ContextErr ctx), [])
        else after (if 0 < attempt then [Sleep (backoff attempt)] else [])
          (if bad_url w url then (Inl CreateRequestFailed, [])
           else after [HttpGet ctx url]
             (case do_request w ctx url attempt of
                NoResponse \<Rightarrow>
                  retryLoop w ctx url maxRetries (attempt + 1) (Some RequestFailed)
              | Response StatusCode b \<Rightarrow>
                  if 200 \<le> StatusCode \<and> StatusCode < 300 then
                    (case b of
                       Unreadable \<Rightarrow>
                         retryLoop w ctx url maxRetries (attempt + 1) (Some ReadBodyFailed)
                     | Malformed \<Rightarrow>
                         retryLoop w ctx url maxRetries (attempt + 1) (Some UnmarshalFailed)
                     | Posts posts \<Rightarrow> (Inr posts, []))
                  else if 500 \<le> StatusCode then
                    retryLoop w ctx url maxRetries (attempt + 1) (Some (ServerError StatusCode))
                  else if StatusCode = 429 then
                    retryLoop w ctx url maxRetries (attempt + 1) (Some (RateLimited StatusCode))
                  else if 400 \<le> StatusCode then (Inl (ClientError StatusCode), [])
                  else
                    retryLoop w ctx url maxRetries (attempt + 1)
                      (Some (UnexpectedStatus StatusCode))))
      else (Inl (MaxRetriesExceeded lastErr), []))"
  by pat_completeness auto
termination
  by (relation "measure (\<lambda>(w, ctx, url, maxRetries, attempt, lastErr). nat (maxRetries + 1 - int attempt))")
    auto

declare retryLoop.simps [simp del]

definition retryRequest ::
  "world \<Rightarrow> context \<Rightarrow> string \<Rightarrow> int \<Rightarrow> (error + PostResponse list) \<times> event list" where
  "retryRequest w ctx url maxRetries = retryLoop w ctx url maxRetries 0 None"

definition FetchPosts ::
  "ExternalAPIClient \<Rightarrow> world \<Rightarrow> context \<Rightarrow> (error + PostResponse list) \<times> event list" where
  "FetchPosts c w ctx =
     (let url = baseURL c @ ''/posts'' in
      case retryRequest w ctx url 3 of
        (Inl err, tr) \<Rightarrow> (Inl (FetchPostsFailed err), tr)
      | (Inr posts, tr) \<Rightarrow> (Inr posts, tr))"

section \<open>The store (\<open>internal/database/database.go\<close>, \<open>sql/init.sql\<close>)\<close>

text \<open>The table \<open>items\<close>, rows in insertion order, with its \<open>AUTO_INCREMENT\<close> counter.\<close>

record DB =
  rows :: "Item list"
  next_id :: int

text \<open>The key \<open>external_id\<close> is declared \<open>UNIQUE\<close>.\<close>

definition unique_external_id :: "DB \<Rightarrow> bool" where
  "unique_external_id db = distinct (map ExternalID (rows db))"

text \<open>
  \<open>INSERT ... VALUES (?, ?, ?, ?, NOW(), NOW()) ON DUPLICATE KEY UPDATE title = VALUES(title),
  body = VALUES(body), user_id = VALUES(user_id), updated_at = NOW()\<close>: a statement that fails
  changes nothing.
\<close>

definition UpsertItem :: "bool \<Rightarrow> Time \<Rightarrow> DB \<Rightarrow> Item \<Rightarrow> error option \<times> DB" where
  "UpsertItem fails now db item =
     (if fails then (Some ExecError, db)
      else if ExternalID item \<in> set (map ExternalID (rows db)) then
        (None, db\<lparr>rows :=
           map (\<lambda>r. if ExternalID r = ExternalID item
                    then r\<lparr>Title := Title item, Body := Body item, UserID := UserID item,
                           UpdatedAt := now\<rparr>
                    else r) (rows db)\<rparr>)
      else
        (None, db\<lparr>rows := rows db @
                  [\<lparr>ID = next_id db, ExternalID = ExternalID item, Title = Title item,
                    Body = Body item, UserID = UserID item, CreatedAt = now, UpdatedAt = now\<rparr>],
                next_id := next_id db + 1\<rparr>))"

text \<open>\<open>SELECT ... FROM items ORDER BY created_at DESC\<close>.\<close>

definition GetAllItems :: "world \<Rightarrow> DB \<Rightarrow> (error + Item list) \<times> event list" where
  "GetAllItems w db =
     (if query_fails w then (Inl QueryError, [Query])
      else (Inr (rev (sort_key CreatedAt (rows db))), [Query]))"

section \<open>The cache (\<open>internal/redis/redis.go\<close>)\<close>

text \<open>
  A key holds a serialized value and, when it has one, the time at which it expires. The only
  values the program stores are item lists, so the JSON text is kept as the list it encodes.
\<close>

record Redis =
  entries :: "(string \<times> Item list \<times> Time option) list"

definition live :: "Time \<Rightarrow> string \<times> Item list \<times> Time option \<Rightarrow> bool" where
  "live now e = (case snd (snd e) of None \<Rightarrow> True | Some t \<Rightarrow> now < t)"

text \<open>Glob matching of \<open>KEYS\<close>: \<open>*\<close> for any run of characters, \<open>?\<close> for one.\<close>

fun glob :: "string \<Rightarrow> string \<Rightarrow> bool" where
  "glob [] [] = True"
| "glob [] (c # s) = False"
| "glob (p # ps) [] = (p = CHR ''*'' \<and> glob ps [])"
| "glob (p # ps) (c # s) =
     (if p = CHR ''*'' then glob ps (c # s) \<or> glob (p # ps) s
      else (p = CHR ''?'' \<or> p = c) \<and> glob ps s)"

definition KEYS :: "string \<Rightarrow> Time \<Rightarrow> Redis \<Rightarrow> string list" where
  "KEYS pattern now rdb =
     map fst (filter (\<lambda>e. live now e \<and> glob pattern (fst e)) (entries rdb))"

definition DEL :: "string list \<Rightarrow> Redis \<Rightarrow> Redis" where
  "DEL keys rdb = rdb\<lparr>entries := filter (\<lambda>e. fst e \<notin> set keys) (entries rdb)\<rparr>"

definition GET :: "string \<Rightarrow> Time \<Rightarrow> Redis \<Rightarrow> Item list option" where
  "GET key now rdb =
     (case find (\<lambda>e. fst e = key) (entries rdb) of
        None \<Rightarrow> None
      | Some e \<Rightarrow> if live now e then Some (fst (snd e)) else None)"

text \<open>\<open>SET key data\<close> with \<open>EX\<close>/\<open>PX\<close> for a positive ttl, \<open>KEEPTTL\<close> for -1, no expiry otherwise.\<close>

definition SET :: "string \<Rightarrow> Item list \<Rightarrow> Duration \<Rightarrow> Time \<Rightarrow> Redis \<Rightarrow> Redis" where
  "SET key data ttl now rdb =
     (let expiry =
        (if 0 < ttl then Some (now + ttl)
         else if ttl = - 1 then
           (case find (\<lambda>e. fst e = key \<and> live now e) (entries rdb) of
              None \<Rightarrow> None
            | Some e \<Rightarrow> snd (snd e))
         else None)
      in rdb\<lparr>entries := (key, data, expiry) # filter (\<lambda>e. fst e \<noteq> key) (entries rdb)\<rparr>)"

definition SetJSON ::
  "world \<Rightarrow> context \<Rightarrow> string \<Rightarrow> Item list \<Rightarrow> Duration \<Rightarrow> Redis
     \<Rightarrow> error option \<times> Redis \<times> event list" where
  "SetJSON w ctx key v ttl rdb =
     (if set_fails w then (Some RedisError, rdb, [RedisSet ctx key ttl])
      else (None, SET key v ttl (redis_now w) rdb, [RedisSet ctx key ttl]))"

definition GetJSON ::
  "world \<Rightarrow> context \<Rightarrow> string \<Rightarrow> Redis \<Rightarrow> (error + Item list) \<times> event list" where
  "GetJSON w ctx key rdb =
     (if get_fails w then (Inl RedisError, [RedisGet ctx key])
      else case GET key (redis_now w) rdb of
        None \<Rightarrow> (Inl RedisNil, [RedisGet ctx key])
      | Some data \<Rightarrow> (Inr data, [RedisGet ctx key]))"

definition InvalidatePattern ::
  "world \<Rightarrow> context \<Rightarrow> string \<Rightarrow> Redis \<Rightarrow> error option \<times> Redis \<times> event list" where
  "InvalidatePattern w ctx pattern rdb =
     (if keys_fails w then (Some RedisError, rdb, [RedisKeys ctx pattern])
      else
        let keys = KEYS pattern (redis_now w) rdb in
        if 0 < length keys then
          if del_fails w then (Some RedisError, rdb, [RedisKeys ctx pattern, RedisDel ctx keys])
          else (None, DEL keys rdb, [RedisKeys ctx pattern, RedisDel ctx keys])
        else (None, rdb, [RedisKeys ctx pattern]))"

section \<open>The jobs (\<open>internal/jobs/jobs.go\<close>)\<close>

record Manager =
  mctx :: "context"
  client :: ExternalAPIClient

text \<open>The store and the cache the manager and the handlers share.\<close>

record system =
  db :: DB
  redis :: Redis

definition New :: "string \<Rightarrow> Manager" where
  "New BaseURL = \<lparr>mctx = WithCancel Background, client = \<lparr>baseURL = BaseURL\<rparr>\<rparr>"

text \<open>\<open>strconv.Itoa\<close>.\<close>

fun digits :: "nat \<Rightarrow> string" where
  "digits n =
     (if n < 10 then [char_of (48 + n)] else digits (n div 10) @ [char_of (48 + n mod 10)])"

declare digits.simps [simp del]

definition Itoa :: "int \<Rightarrow> string" where
  "Itoa i = (if i < 0 then CHR ''-'' # digits (nat (- i)) else digits (nat i))"

text \<open>The item \<open>syncData\<close> builds from a post; the fields it leaves out are zero.\<close>

definition toItem :: "PostResponse \<Rightarrow> Item" where
  "toItem post =
     \<lparr>ID = 0, ExternalID = Itoa (PostID post), Title = PostTitle post, Body = PostBody post,
      UserID = PostUserID post, CreatedAt = 0, UpdatedAt = 0\<rparr>"

text \<open>
  The loop over the posts, from the \<open>k\<close>-th statement of the run on, with the two counters
  and the table as they stand.
\<close>

fun upsertLoop ::
  "world \<Rightarrow> nat \<Rightarrow> nat \<times> nat \<times> DB \<Rightarrow> PostResponse list \<Rightarrow> (nat \<times> nat \<times> DB) \<times> event list" where
  "upsertLoop w k (successCount, errorCount, d) [] = ((successCount, errorCount, d), [])"
| "upsertLoop w k (successCount, errorCount, d) (post # posts) =
     (let item = toItem post in
      case UpsertItem (exec_fails w k) (db_now w k) d item of
        (Some err, d') \<Rightarrow>
          after [Exec item, Log (FailedToUpsertItem (ExternalID item) err)]
            (upsertLoop w (k + 1) (successCount, errorCount + 1, d') posts)
      | (None, d') \<Rightarrow>
          after [Exec item] (upsertLoop w (k + 1) (successCount + 1, errorCount, d') posts))"

definition syncData :: "world \<Rightarrow> Manager \<Rightarrow> system \<Rightarrow> error option \<times> system \<times> event list" where
  "syncData w m s =
     (let ctx = WithTimeout (mctx m) (2 * Minute) in
      case FetchPosts (client m) w ctx of
        (Inl err, tr) \<Rightarrow> (Some (FetchPostsFailed err), s, Log StartingDataSync # tr)
      | (Inr posts, tr) \<Rightarrow>
          (case upsertLoop w 0 (0, 0, db s) posts of
             ((successCount, errorCount, d), tr2) \<Rightarrow>
               (case (if 0 < successCount then InvalidatePattern w ctx ''items:*'' (redis s)
                      else (None, redis s, [])) of
                  (ierr, rdb, tr3) \<Rightarrow>
                    (if 0 < errorCount then Some (SyncErrors errorCount (length posts)) else None,
                     \<lparr>db = d, redis = rdb\<rparr>,
                     Log StartingDataSync # tr @ [Log (FetchedPosts (length posts))] @ tr2 @ tr3 @
                     (case ierr of None \<Rightarrow> [] | Some e \<Rightarrow> [Log (FailedToInvalidateCache e)]) @
                     [Log (DataSyncCompleted successCount errorCount)]))))"

definition SyncDataManual ::
  "world \<Rightarrow> Manager \<Rightarrow> context \<Rightarrow> system \<Rightarrow> error option \<times> system \<times> event list" where
  "SyncDataManual w m ctx s = syncData w m s"

section \<open>The handlers of \<open>/api/v1/sync\<close> and \<open>/api/v1/items\<close>\<close>

definition itemsCacheKey :: string where
  "itemsCacheKey = ''items:all''"

definition itemsCacheTTL :: Duration where
  "itemsCacheTTL = 5 * Minute"

record Handler =
  jobManager :: Manager

datatype payload =
    ItemsPayload "Item list" nat bool   \<comment> \<open>\<open>data\<close>, \<open>count\<close>, \<open>cached\<close>\<close>
  | ErrorPayload string error           \<comment> \<open>\<open>error\<close>, \<open>message\<close>\<close>
  | MessagePayload string               \<comment> \<open>\<open>message\<close>\<close>

record http_response =
  status :: nat
  x_cache :: "string option"
  json :: payload

definition Handler_syncData ::
  "world \<Rightarrow> Handler \<Rightarrow> system \<Rightarrow> http_response \<times> system \<times> event list" where
  "Handler_syncData w h s =
     (let ctx = WithTimeout RequestContext (3 * Minute) in
      case SyncDataManual w (jobManager h) ctx s of
        (Some err, s', tr) \<Rightarrow>
          (\<lparr>status = 500, x_cache = None, json = ErrorPayload ''sync failed'' err\<rparr>, s',
           Log ManualSyncRequested # tr @ [Log (ManualSyncFailed err)])
      | (None, s', tr) \<Rightarrow>
          (\<lparr>status = 200, x_cache = None, json = MessagePayload ''sync completed successfully''\<rparr>,
           s', Log ManualSyncRequested # tr))"

definition getItems :: "world \<Rightarrow> system \<Rightarrow> http_response \<times> system \<times> event list" where
  "getItems w s =
     (let ctx = WithTimeout RequestContext (30 * Second) in
      case GetJSON w ctx itemsCacheKey (redis s) of
        (Inr items, tr) \<Rightarrow>
          (\<lparr>status = 200, x_cache = Some ''HIT'', json = ItemsPayload items (length items) True\<rparr>,
           s, tr @ [Log ItemsServedFromCache])
      | (Inl _, tr) \<Rightarrow>
          (case GetAllItems w (db s) of
             (Inl err, tr2) \<Rightarrow>
               (\<lparr>status = 500, x_cache = None,
                 json = ErrorPayload ''failed to retrieve items'' err\<rparr>,
                s, tr @ tr2 @ [Log (FailedToGetItems err)])
           | (Inr items, tr2) \<Rightarrow>
               (case SetJSON w ctx itemsCacheKey items itemsCacheTTL (redis s) of
                  (serr, rdb, tr3) \<Rightarrow>
                    (\<lparr>status = 200, x_cache = Some ''MISS'',
                      json = ItemsPayload items (length items) False\<rparr>,
                     s\<lparr>redis := rdb\<rparr>,
                     tr @ tr2 @ tr3 @
                     (case serr of None \<Rightarrow> [] | Some e \<Rightarrow> [Log (FailedToCacheItems e)]) @
                     [Log (ItemsServedFromDatabase (length items))]))))"

section \<open>Notions used in the statements\<close>

text \<open>
  The error the loop of \<open>retryRequest\<close> keeps in \<open>lastErr\<close> when it goes on after a reply;
  \<open>None\<close> for a reply that ends the loop.
\<close>

fun lastErr_of :: "reply \<Rightarrow> error option" where
  "lastErr_of NoResponse = Some RequestFailed"
| "lastErr_of (Response s b) =
     (if 200 \<le> s \<and> s < 300 then
        (case b of Unreadable \<Rightarrow> Some ReadBodyFailed | Malformed \<Rightarrow> Some UnmarshalFailed
         | Posts _ \<Rightarrow> None)
      else if 500 \<le> s then Some (ServerError s)
      else if s = 429 then Some (RateLimited s)
      else if 400 \<le> s then None
      else Some (UnexpectedStatus s))"

text \<open>
  The failures the specification calls transient, with the error each one leaves: no response
  (a transport failure), a status from 500 to 599, the status 429, and a 2xx response whose
  body cannot be read or parsed.
\<close>

fun transient :: "reply \<Rightarrow> error option" where
  "transient NoResponse = Some RequestFailed"
| "transient (Response s b) =
     (if 500 \<le> s \<and> s \<le> 599 then Some (ServerError s)
      else if s = 429 then Some (RateLimited s)
      else if 200 \<le> s \<and> s \<le> 299 \<and> b = Unreadable then Some ReadBodyFailed
      else if 200 \<le> s \<and> s \<le> 299 \<and> b = Malformed then Some UnmarshalFailed
      else None)"

text \<open>
  The events of \<open>n\<close> attempts in a row starting with attempt \<open>a\<close>: each attempt but the one
  numbered 0 comes after its backoff.
\<close>

fun tries :: "context \<Rightarrow> string \<Rightarrow> nat \<Rightarrow> nat \<Rightarrow> event list" where
  "tries ctx url a 0 = []"
| "tries ctx url a (Suc n) =
     (if 0 < a then [Sleep (backoff a)] else []) @ [HttpGet ctx url] @ tries ctx url (Suc a) n"

text \<open>The backoffs a run has waited for, in order.\<close>

fun sleeps :: "event list \<Rightarrow> Duration list" where
  "sleeps [] = []"
| "sleeps (Sleep d # es) = d # sleeps es"
| "sleeps (e # es) = sleeps es"

text \<open>The row of an external id, and the number of rows that carry it.\<close>

definition row_of :: "string \<Rightarrow> DB \<Rightarrow> Item option" where
  "row_of e d = find (\<lambda>r. ExternalID r = e) (rows d)"

definition count_rows :: "string \<Rightarrow> DB \<Rightarrow> nat" where
  "count_rows e d = length (filter (\<lambda>r. ExternalID r = e) (rows d))"

text \<open>The upsert statements a run has sent, in order.\<close>

fun execs :: "event list \<Rightarrow> Item list" where
  "execs [] = []"
| "execs (Exec item # es) = item # execs es"
| "execs (e # es) = execs es"

text \<open>
  The upserts of a run that failed, as the run logs them, and the outcome of a run: how many of
  the upsert statements it sent succeeded and how many failed.
\<close>

fun failures :: "event list \<Rightarrow> nat" where
  "failures [] = 0"
| "failures (Log (FailedToUpsertItem e err) # es) = Suc (failures es)"
| "failures (e # es) = failures es"

definition outcome :: "event list \<Rightarrow> nat \<times> nat" where
  "outcome evs = (length (execs evs) - failures evs, failures evs)"

text \<open>The events that are Redis commands, and the events a fetch can leave.\<close>

fun is_redis :: "event \<Rightarrow> bool" where
  "is_redis (RedisGet ctx key) = True"
| "is_redis (RedisSet ctx key ttl) = True"
| "is_redis (RedisKeys ctx pattern) = True"
| "is_redis (RedisDel ctx keys) = True"
| "is_redis e = False"

fun is_fetch :: "event \<Rightarrow> bool" where
  "is_fetch (Sleep d) = True"
| "is_fetch (HttpGet ctx url) = True"
| "is_fetch e = False"

text \<open>
  Of the first \<open>n\<close> upsert statements of a run, how many succeed and how many fail.
\<close>

definition succeeded :: "world \<Rightarrow> nat \<Rightarrow> nat" where
  "succeeded w n = length (filter (\<lambda>k. \<not> exec_fails w k) [0..<n])"

definition failed :: "world \<Rightarrow> nat \<Rightarrow> nat" where
  "failed w n = length (filter (exec_fails w) [0..<n])"

text \<open>The table after the upserts of the posts, sent one after the other from statement \<open>k\<close> on.\<close>

fun stored :: "world \<Rightarrow> nat \<Rightarrow> DB \<Rightarrow> PostResponse list \<Rightarrow> DB" where
  "stored w k d [] = d"
| "stored w k d (post # posts) =
     stored w (Suc k) (snd (UpsertItem (exec_fails w k) (db_now w k) d (toItem post))) posts"

text \<open>The step of a run after the loop over \<open>n\<close> posts: the invalidation, when one is due.\<close>

definition invalidation ::
  "world \<Rightarrow> Manager \<Rightarrow> nat \<Rightarrow> Redis \<Rightarrow> error option \<times> Redis \<times> event list" where
  "invalidation w m n rdb =
     (if 0 < succeeded w n
      then InvalidatePattern w (WithTimeout (mctx m) (2 * Minute)) ''items:*'' rdb
      else (None, rdb, []))"

section \<open>Sample inputs\<close>

text \<open>A world in which nothing fails and the server has no posts.\<close>

definition quiet :: world where
  "quiet =
     \<lparr>bad_url = (\<lambda>url. False), ctx_done = (\<lambda>ctx k. False),
      do_request = (\<lambda>ctx url k. Response 200 (Posts [])),
      exec_fails = (\<lambda>k. False), db_now = (\<lambda>k. 1000 + int k), query_fails = False,
      get_fails = False, set_fails = False, keys_fails = False, del_fails = False,
      redis_now = 2000\<rparr>"

text \<open>The same world with a server that gives one reply to every attempt.\<close>

definition always :: "reply \<Rightarrow> world" where
  "always r = quiet\<lparr>do_request := (\<lambda>ctx url k. r)\<rparr>"

definition api :: ExternalAPIClient where
  "api = \<lparr>baseURL = ''http://api''\<rparr>"

definition empty_db :: DB where
  "empty_db = \<lparr>rows = [], next_id = 1\<rparr>"

definition item_A :: Item where
  "item_A = \<lparr>ID = 0, ExternalID = ''1'', Title = ''A'', Body = ''b'', UserID = 1,
              CreatedAt = 0, UpdatedAt = 0\<rparr>"

definition item_Z :: Item where
  "item_Z = \<lparr>ID = 0, ExternalID = ''1'', Title = ''Z'', Body = ''y'', UserID = 2,
              CreatedAt = 0, UpdatedAt = 0\<rparr>"

definition post_1 :: PostResponse where
  "post_1 = \<lparr>PostUserID = 1, PostID = 1, PostTitle = ''A'', PostBody = ''b''\<rparr>"

definition post_2 :: PostResponse where
  "post_2 = \<lparr>PostUserID = 1, PostID = 2, PostTitle = ''C'', PostBody = ''d''\<rparr>"

text \<open>Two posts are fetched and the second upsert fails.\<close>

definition second_fails :: world where
  "second_fails =
     (always (Response 200 (Posts [post_1, post_2])))\<lparr>exec_fails := (\<lambda>k. k = 1)\<rparr>"

text \<open>Ten posts are fetched and the upserts of three of them fail.\<close>

definition ten_posts :: "PostResponse list" where
  "ten_posts =
     map (\<lambda>i. \<lparr>PostUserID = 1, PostID = i, PostTitle = ''t'', PostBody = ''b''\<rparr>)
       [1, 2, 3, 4, 5, 6, 7, 8, 9, 10]"

definition three_fail :: world where
  "three_fail =
     (always (Response 200 (Posts ten_posts)))\<lparr>exec_fails := (\<lambda>k. k = 2 \<or> k = 5 \<or> k = 7)\<rparr>"

text \<open>
  The server always answers 500, and the context the handler of \<open>/api/v1/sync\<close> builds is done
  whenever a backoff looks at it; no other context is.
\<close>

definition caller_gone :: world where
  "caller_gone =
     (always (Response 500 (Posts [])))
       \<lparr>ctx_done := (\<lambda>ctx k. ctx = WithTimeout RequestContext (3 * Minute))\<rparr>"

text \<open>
  The server always answers 500 and the context is done during the backoff before attempt 2; the
  server answers 503 twice and then serves one post; the server answers 500 and then 404.
\<close>

definition gone_at_2 :: world where
  "gone_at_2 = (always (Response 500 (Posts [])))\<lparr>ctx_done := (\<lambda>ctx k. k = 2)\<rparr>"

definition third_time :: world where
  "third_time =
     quiet\<lparr>do_request :=
             (\<lambda>ctx url k. if k < 2 then Response 503 (Posts []) else Response 200 (Posts [post_1]))\<rparr>"

definition then_404 :: world where
  "then_404 =
     quiet\<lparr>do_request :=
             (\<lambda>ctx url k. if k = 0 then Response 500 (Posts []) else Response 404 (Posts []))\<rparr>"

text \<open>
  Two posts are fetched and every upsert fails; the second upsert fails and so does \<open>KEYS\<close>; the
  query of the store fails; the reads and writes of the cache fail.
\<close>

definition all_fail :: world where
  "all_fail = (always (Response 200 (Posts [post_1, post_2])))\<lparr>exec_fails := (\<lambda>k. True)\<rparr>"

definition keys_down :: world where
  "keys_down = second_fails\<lparr>keys_fails := True\<rparr>"

definition store_down :: world where
  "store_down = quiet\<lparr>query_fails := True\<rparr>"

definition cache_down :: world where
  "cache_down = quiet\<lparr>get_fails := True, set_fails := True\<rparr>"

text \<open>An empty table behind a cache that holds the item list and one other key; and no cache entry.\<close>

definition sys0 :: system where
  "sys0 = \<lparr>db = empty_db,
           redis = \<lparr>entries = [(''items:all'', [], Some 3000), (''health'', [], None)]\<rparr>\<rparr>"

definition cold :: system where
  "cold = \<lparr>db = empty_db, redis = \<lparr>entries = []\<rparr>\<rparr>"

section \<open>The retry loop\<close>

lemma after_after: "after es (after fs x) = after (es @ fs) x"
  by (cases x) simp

lemma after_Nil: "after [] x = x"
  by (cases x) simp

lemma fst_after [simp]: "fst (after es x) = fst x"
  by (cases x) simp

lemma snd_after [simp]: "snd (after es x) = es @ snd x"
  by (cases x) simp

lemma retryLoop_exhausted:
  "maxRetries < int attempt \<Longrightarrow>
   retryLoop w ctx url maxRetries attempt lastErr = (Inl (MaxRetriesExceeded lastErr), [])"
  by (simp add: retryLoop.simps [of w ctx url maxRetries attempt lastErr])

lemma retryLoop_cancelled:
  "int attempt \<le> maxRetries \<Longrightarrow> 0 < attempt \<Longrightarrow> ctx_done w ctx attempt \<Longrightarrow>
   retryLoop w ctx url maxRetries attempt lastErr = (Inl (ContextErr ctx), [])"
  by (simp add: retryLoop.simps [of w ctx url maxRetries attempt lastErr])

lemma retryLoop_retry:
  assumes "int attempt \<le> maxRetries" "\<not> (0 < attempt \<and> ctx_done w ctx attempt)" "\<not> bad_url w url"
    and "lastErr_of (do_request w ctx url attempt) = Some e"
  shows "retryLoop w ctx url maxRetries attempt lastErr =
         after (tries ctx url attempt (Suc 0)) (retryLoop w ctx url maxRetries (Suc attempt) (Some e))"
  using assms
  by (cases "do_request w ctx url attempt")
     (auto simp: retryLoop.simps [of w ctx url maxRetries attempt lastErr] after_after
           split: body.splits if_splits)

lemma retryLoop_bad_url:
  "int attempt \<le> maxRetries \<Longrightarrow> \<not> (0 < attempt \<and> ctx_done w ctx attempt) \<Longrightarrow> bad_url w url \<Longrightarrow>
   retryLoop w ctx url maxRetries attempt lastErr =
     (Inl CreateRequestFailed, if 0 < attempt then [Sleep (backoff attempt)] else [])"
  by (auto simp: retryLoop.simps [of w ctx url maxRetries attempt lastErr])

lemma retryLoop_success:
  assumes "int attempt \<le> maxRetries" "\<not> (0 < attempt \<and> ctx_done w ctx attempt)" "\<not> bad_url w url"
    and "do_request w ctx url attempt = Response s (Posts posts)" "200 \<le> s" "s < 300"
  shows "retryLoop w ctx url maxRetries attempt lastErr = (Inr posts, tries ctx url attempt (Suc 0))"
  using assms by (auto simp: retryLoop.simps [of w ctx url maxRetries attempt lastErr])

lemma retryLoop_client_error:
  assumes "int attempt \<le> maxRetries" "\<not> (0 < attempt \<and> ctx_done w ctx attempt)" "\<not> bad_url w url"
    and "do_request w ctx url attempt = Response s b" "400 \<le> s" "s < 500" "s \<noteq> 429"
  shows "retryLoop w ctx url maxRetries attempt lastErr = (Inl (ClientError s), tries ctx url attempt (Suc 0))"
  using assms by (auto simp: retryLoop.simps [of w ctx url maxRetries attempt lastErr])

lemma tries_append: "tries ctx url a (m + n) = tries ctx url a m @ tries ctx url (a + m) n"
  by (induction m arbitrary: a) auto

lemma retryLoop_retries:
  assumes "\<not> bad_url w url" "int (a + n) \<le> maxRetries + 1"
    and "\<And>k. a \<le> k \<Longrightarrow> k < a + n \<Longrightarrow>
           lastErr_of (do_request w ctx url k) \<noteq> None \<and> \<not> (0 < k \<and> ctx_done w ctx k)"
  shows "retryLoop w ctx url maxRetries a lastErr =
         after (tries ctx url a n)
           (retryLoop w ctx url maxRetries (a + n)
              (if n = 0 then lastErr else lastErr_of (do_request w ctx url (a + n - 1))))"
  using assms
proof (induction n arbitrary: a lastErr)
  case 0
  then show ?case by (simp add: after_Nil)
next
  case (Suc n)
  from Suc.prems(3) [of a] obtain e where e: "lastErr_of (do_request w ctx url a) = Some e"
    and nd: "\<not> (0 < a \<and> ctx_done w ctx a)" by auto
  have step: "retryLoop w ctx url maxRetries a lastErr =
      after (tries ctx url a (Suc 0)) (retryLoop w ctx url maxRetries (Suc a) (Some e))"
    using Suc.prems(1,2) nd e by (intro retryLoop_retry) auto
  have rest: "retryLoop w ctx url maxRetries (Suc a) (Some e) =
      after (tries ctx url (Suc a) n)
        (retryLoop w ctx url maxRetries (Suc a + n)
           (if n = 0 then Some e else lastErr_of (do_request w ctx url (Suc a + n - 1))))"
  proof (rule Suc.IH [OF Suc.prems(1)])
    show "int (Suc a + n) \<le> maxRetries + 1"
      using Suc.prems(2) by simp
    show "lastErr_of (do_request w ctx url k) \<noteq> None \<and> \<not> (0 < k \<and> ctx_done w ctx k)"
      if "Suc a \<le> k" "k < Suc a + n" for k
      using Suc.prems(3) [of k] that by simp
  qed
  have last: "(if n = 0 then Some e else lastErr_of (do_request w ctx url (Suc a + n - 1))) =
      lastErr_of (do_request w ctx url (a + Suc n - 1))"
    using e by (cases n) simp_all
  have "retryLoop w ctx url maxRetries a lastErr =
      after (tries ctx url a (Suc 0)) (after (tries ctx url (Suc a) n)
        (retryLoop w ctx url maxRetries (Suc a + n) (lastErr_of (do_request w ctx url (a + Suc n - 1)))))"
    unfolding step rest last ..
  also have "\<dots> = after (tries ctx url a (Suc n))
        (retryLoop w ctx url maxRetries (a + Suc n) (lastErr_of (do_request w ctx url (a + Suc n - 1))))"
    by (simp add: after_after)
  finally show ?case by simp
qed

lemma transient_lastErr_of: "transient r = Some e \<Longrightarrow> lastErr_of r = Some e"
  by (cases r) (auto split: if_splits body.splits)

lemma backoff_123:
  "backoff (Suc 0) = Second" "backoff (Suc (Suc 0)) = 2 * Second"
  "backoff (Suc (Suc (Suc 0))) = 4 * Second"
  by (simp_all add: backoff_def Second_def)

lemma tries_4:
  "tries ctx url 0 4 =
     [HttpGet ctx url, Sleep Second, HttpGet ctx url, Sleep (2 * Second), HttpGet ctx url,
      Sleep (4 * Second), HttpGet ctx url]"
proof -
  have "(4::nat) = Suc (Suc (Suc (Suc 0)))"
    by simp
  then show ?thesis
    by (simp only: tries.simps backoff_123) simp
qed

lemma FetchPosts_unfold:
  "FetchPosts c w ctx =
     (case retryLoop w ctx (baseURL c @ ''/posts'') 3 0 None of
        (Inl err, tr) \<Rightarrow> (Inl (FetchPostsFailed err), tr)
      | (Inr posts, tr) \<Rightarrow> (Inr posts, tr))"
  by (simp add: FetchPosts_def retryRequest_def)

lemma tries_snoc: "tries ctx url a (Suc n) = tries ctx url a n @ tries ctx url (a + n) (Suc 0)"
  using tries_append [of ctx url a n "Suc 0"] by (simp del: tries.simps)

lemma retryLoop_from_0:
  assumes "\<not> bad_url w url" "int n \<le> maxRetries + 1"
    and "\<And>k. k < n \<Longrightarrow>
           lastErr_of (do_request w ctx url k) \<noteq> None \<and> \<not> (0 < k \<and> ctx_done w ctx k)"
  shows "retryLoop w ctx url maxRetries 0 None =
         after (tries ctx url 0 n)
           (retryLoop w ctx url maxRetries n
              (if n = 0 then None else lastErr_of (do_request w ctx url (n - 1))))"
proof -
  have "retryLoop w ctx url maxRetries 0 None =
      after (tries ctx url 0 n)
        (retryLoop w ctx url maxRetries (0 + n)
           (if n = 0 then None else lastErr_of (do_request w ctx url (0 + n - 1))))"
    by (rule retryLoop_retries) (use assms in simp_all)
  then show ?thesis
    by (simp only: add_0)
qed

lemma FetchPosts_after_retries:
  assumes "\<not> bad_url w (baseURL c @ ''/posts'')" and "n \<le> 4"
    and "\<And>k. k < n \<Longrightarrow> lastErr_of (do_request w ctx (baseURL c @ ''/posts'') k) \<noteq> None \<and>
                \<not> (0 < k \<and> ctx_done w ctx k)"
    and "retryLoop w ctx (baseURL c @ ''/posts'') 3 n
           (if n = 0 then None else lastErr_of (do_request w ctx (baseURL c @ ''/posts'') (n - 1)))
         = (r, tr)"
  shows "FetchPosts c w ctx =
           (case r of Inl err \<Rightarrow> Inl (FetchPostsFailed err) | Inr posts \<Rightarrow> Inr posts,
            tries ctx (baseURL c @ ''/posts'') 0 n @ tr)"
proof -
  let ?url = "baseURL c @ ''/posts''"
  have "retryLoop w ctx ?url 3 0 None =
      after (tries ctx ?url 0 n)
        (retryLoop w ctx ?url 3 n
           (if n = 0 then None else lastErr_of (do_request w ctx ?url (n - 1))))"
    by (rule retryLoop_from_0) (use assms(1,2,3) in simp_all)
  then have "retryLoop w ctx ?url 3 0 None = (r, tries ctx ?url 0 n @ tr)"
    by (simp only: assms(4) after.simps)
  then show ?thesis
    by (cases r) (simp_all add: FetchPosts_unfold del: tries.simps)
qed

lemma selectors_always [simp]:
  "bad_url (always r) url = False" "ctx_done (always r) ctx k = False"
  "do_request (always r) ctx url k = r"
  by (simp_all add: always_def quiet_def)

lemma selectors_gone_at_2 [simp]:
  "bad_url gone_at_2 url = False" "ctx_done gone_at_2 ctx k = (k = 2)"
  "do_request gone_at_2 ctx url k = Response 500 (Posts [])"
  by (simp_all add: gone_at_2_def always_def quiet_def)

lemma selectors_third_time [simp]:
  "bad_url third_time url = False" "ctx_done third_time ctx k = False"
  "do_request third_time ctx url k =
     (if k < 2 then Response 503 (Posts []) else Response 200 (Posts [post_1]))"
  by (simp_all add: third_time_def quiet_def)

lemma selectors_then_404 [simp]:
  "bad_url then_404 url = False" "ctx_done then_404 ctx k = False"
  "do_request then_404 ctx url k =
     (if k = 0 then Response 500 (Posts []) else Response 404 (Posts []))"
  by (simp_all add: then_404_def quiet_def)

text \<open>
  Claim C1, with the backoffs as the code waits them. A call of \<open>FetchPosts\<close> goes on after each
  transient failure (no response, 5xx, 429, a body that cannot be read or parsed). When all four
  attempts fail that way it has made exactly four requests, has waited 1s, 2s and 4s between
  them (never 8s), and returns the error of exhausted retries around the last failure. When the
  context is done during the backoff before attempt \<open>n\<close>, the call returns the context's error
  at once, with no further request. When attempt \<open>n\<close> gets a parsed 2xx response, the posts
  are returned.
\<close>

theorem FetchPosts_retries_transient:
  assumes "\<not> bad_url w (baseURL c @ ''/posts'')" and "n \<le> 4"
    and "\<forall>k<n. transient (do_request w ctx (baseURL c @ ''/posts'') k) \<noteq> None \<and>
                \<not> (0 < k \<and> ctx_done w ctx k)"
  shows
    "(n = 4 \<longrightarrow>
        FetchPosts c w ctx =
          (Inl (FetchPostsFailed
                 (MaxRetriesExceeded (transient (do_request w ctx (baseURL c @ ''/posts'') 3)))),
           tries ctx (baseURL c @ ''/posts'') 0 4)) \<and>
     (0 < n \<and> n < 4 \<and> ctx_done w ctx n \<longrightarrow>
        FetchPosts c w ctx =
          (Inl (FetchPostsFailed (ContextErr ctx)), tries ctx (baseURL c @ ''/posts'') 0 n)) \<and>
     (n < 4 \<and> \<not> (0 < n \<and> ctx_done w ctx n) \<and> 200 \<le> s \<and> s < 300 \<and>
      do_request w ctx (baseURL c @ ''/posts'') n = Response s (Posts posts) \<longrightarrow>
        FetchPosts c w ctx = (Inr posts, tries ctx (baseURL c @ ''/posts'') 0 (Suc n))) \<and>
     tries ctx (baseURL c @ ''/posts'') 0 4 =
       [HttpGet ctx (baseURL c @ ''/posts''), Sleep Second,
        HttpGet ctx (baseURL c @ ''/posts''), Sleep (2 * Second),
        HttpGet ctx (baseURL c @ ''/posts''), Sleep (4 * Second),
        HttpGet ctx (baseURL c @ ''/posts'')]"
proof -
  let ?url = "baseURL c @ ''/posts''"
  have tr: "transient (do_request w ctx ?url k) \<noteq> None" if "k < n" for k
    using assms(3) that by blast
  have pre: "lastErr_of (do_request w ctx ?url k) \<noteq> None \<and> \<not> (0 < k \<and> ctx_done w ctx k)"
    if "k < n" for k
    using assms(3) that transient_lastErr_of [of "do_request w ctx ?url k"] by auto
  note run = FetchPosts_after_retries [OF assms(1,2) pre]
  have A: "FetchPosts c w ctx =
      (Inl (FetchPostsFailed (MaxRetriesExceeded (transient (do_request w ctx ?url 3)))),
       tries ctx ?url 0 4)" if "n = 4"
  proof -
    from tr [of 3] that obtain e where e: "transient (do_request w ctx ?url 3) = Some e"
      by auto
    have "retryLoop w ctx ?url 3 n
           (if n = 0 then None else lastErr_of (do_request w ctx ?url (n - 1)))
          = (Inl (MaxRetriesExceeded (Some e)), [])"
      using that transient_lastErr_of [OF e] by (simp add: retryLoop_exhausted)
    from run [OF _ this] show ?thesis
      using that e by (simp del: tries.simps)
  qed
  have B: "FetchPosts c w ctx = (Inl (FetchPostsFailed (ContextErr ctx)), tries ctx ?url 0 n)"
    if "0 < n" "n < 4" "ctx_done w ctx n"
  proof -
    have "retryLoop w ctx ?url 3 n
           (if n = 0 then None else lastErr_of (do_request w ctx ?url (n - 1)))
          = (Inl (ContextErr ctx), [])"
      using that by (intro retryLoop_cancelled) auto
    from run [OF _ this] show ?thesis
      by (simp del: tries.simps)
  qed
  have C: "FetchPosts c w ctx = (Inr posts, tries ctx ?url 0 (Suc n))"
    if "n < 4" "\<not> (0 < n \<and> ctx_done w ctx n)" "200 \<le> s" "s < 300"
      "do_request w ctx ?url n = Response s (Posts posts)"
  proof -
    have "retryLoop w ctx ?url 3 n
            (if n = 0 then None else lastErr_of (do_request w ctx ?url (n - 1)))
          = (Inr posts, tries ctx ?url n (Suc 0))"
      using that assms(1) by (intro retryLoop_success [where s = s]) auto
    from run [OF _ this] show ?thesis
      using tries_snoc [of ctx ?url 0 n] by (simp del: tries.simps)
  qed
  show ?thesis
  proof (intro conjI impI)
    show "tries ctx ?url 0 4 = [HttpGet ctx ?url, Sleep Second, HttpGet ctx ?url,
        Sleep (2 * Second), HttpGet ctx ?url, Sleep (4 * Second), HttpGet ctx ?url]"
      by (rule tries_4)
  qed (use A B C in blast)+
qed

text \<open>
  Claim C1, witness: a server that always answers 503 gets four requests, with backoffs of
  1s, 2s and 4s; a context done during the second backoff ends the call after two requests;
  a server that answers 503 twice and then serves a post gets three requests.
\<close>

theorem FetchPosts_retries_transient_witness:
  "FetchPosts api (always (Response 503 (Posts []))) Background =
     (Inl (FetchPostsFailed (MaxRetriesExceeded (Some (ServerError 503)))),
      [HttpGet Background ''http://api/posts'', Sleep Second,
       HttpGet Background ''http://api/posts'', Sleep (2 * Second),
       HttpGet Background ''http://api/posts'', Sleep (4 * Second),
       HttpGet Background ''http://api/posts'']) \<and>
   FetchPosts api gone_at_2 Background =
     (Inl (FetchPostsFailed (ContextErr Background)),
      [HttpGet Background ''http://api/posts'', Sleep Second,
       HttpGet Background ''http://api/posts'']) \<and>
   FetchPosts api third_time Background =
     (Inr [post_1],
      [HttpGet Background ''http://api/posts'', Sleep Second,
       HttpGet Background ''http://api/posts'', Sleep (2 * Second),
       HttpGet Background ''http://api/posts''])"
proof -
  have t: "tries Background ''http://api/posts'' 0 2 =
      [HttpGet Background ''http://api/posts'', Sleep Second,
       HttpGet Background ''http://api/posts'']"
    "tries Background ''http://api/posts'' 0 (Suc 2) =
      [HttpGet Background ''http://api/posts'', Sleep Second,
       HttpGet Background ''http://api/posts'', Sleep (2 * Second),
       HttpGet Background ''http://api/posts'']"
    by (simp_all add: numeral_2_eq_2 backoff_123)
  have a: "FetchPosts api (always (Response 503 (Posts []))) Background =
     (Inl (FetchPostsFailed (MaxRetriesExceeded (Some (ServerError 503)))),
      [HttpGet Background ''http://api/posts'', Sleep Second,
       HttpGet Background ''http://api/posts'', Sleep (2 * Second),
       HttpGet Background ''http://api/posts'', Sleep (4 * Second),
       HttpGet Background ''http://api/posts''])"
  proof -
    have h: "\<forall>k<4. transient (do_request (always (Response 503 (Posts []))) Background
                         (baseURL api @ ''/posts'') k) \<noteq> None \<and>
                    \<not> (0 < k \<and> ctx_done (always (Response 503 (Posts []))) Background k)"
      by simp
    have u: "\<not> bad_url (always (Response 503 (Posts []))) (baseURL api @ ''/posts'')"
      by simp
    have b: "(4::nat) \<le> 4"
      by simp
    from FetchPosts_retries_transient [OF u b h] show ?thesis
      by (simp add: api_def)
  qed
  have b: "FetchPosts api gone_at_2 Background =
     (Inl (FetchPostsFailed (ContextErr Background)),
      [HttpGet Background ''http://api/posts'', Sleep Second,
       HttpGet Background ''http://api/posts''])"
  proof -
    have h: "\<forall>k<2. transient (do_request gone_at_2 Background (baseURL api @ ''/posts'') k) \<noteq> None \<and>
                    \<not> (0 < k \<and> ctx_done gone_at_2 Background k)"
      by simp
    have u: "\<not> bad_url gone_at_2 (baseURL api @ ''/posts'')"
      by simp
    have b: "(2::nat) \<le> 4"
      by simp
    from FetchPosts_retries_transient [OF u b h] show ?thesis
      using t(1) by (simp add: api_def del: tries.simps)
  qed
  have c: "FetchPosts api third_time Background =
     (Inr [post_1],
      [HttpGet Background ''http://api/posts'', Sleep Second,
       HttpGet Background ''http://api/posts'', Sleep (2 * Second),
       HttpGet Background ''http://api/posts''])"
  proof -
    have h: "\<forall>k<2. transient (do_request third_time Background (baseURL api @ ''/posts'') k) \<noteq> None \<and>
                    \<not> (0 < k \<and> ctx_done third_time Background k)"
      by simp
    have u: "\<not> bad_url third_time (baseURL api @ ''/posts'')"
      by simp
    have b: "(2::nat) \<le> 4"
      by simp
    from FetchPosts_retries_transient [OF u b h, where s = 200 and posts = "[post_1]"]
    show ?thesis
      using t(2) by (simp add: api_def del: tries.simps)
  qed
  from a b c show ?thesis
    by (intro conjI)
qed

text \<open>
  Claim C1 as it is written fails: against a server that always answers 500 the call waits
  three times, 1s, 2s and 4s; a backoff of 8s is never waited.
\<close>

theorem FetchPosts_backoff_counterexample:
  "FetchPosts api (always (Response 500 (Posts []))) Background =
     (Inl (FetchPostsFailed (MaxRetriesExceeded (Some (ServerError 500)))),
      [HttpGet Background ''http://api/posts'', Sleep Second,
       HttpGet Background ''http://api/posts'', Sleep (2 * Second),
       HttpGet Background ''http://api/posts'', Sleep (4 * Second),
       HttpGet Background ''http://api/posts'']) \<and>
   sleeps (snd (FetchPosts api (always (Response 500 (Posts []))) Background)) \<noteq>
     [Second, 2 * Second, 4 * Second, 8 * Second]"
  by (simp add: FetchPosts_unfold retryLoop.simps api_def backoff_def Second_def)

text \<open>
  Claim C8. When the attempts before attempt \<open>n\<close> failed transiently and attempt \<open>n\<close> gets a
  status from 400 to 499 other than 429, \<open>FetchPosts\<close> returns the client error with that
  request as its last event: nothing is waited or sent after it. When the first reply is such a
  status, the call makes exactly one request.
\<close>

theorem FetchPosts_client_error_terminal:
  assumes "\<not> bad_url w (baseURL c @ ''/posts'')" and "n < 4"
    and "\<forall>k<n. transient (do_request w ctx (baseURL c @ ''/posts'') k) \<noteq> None \<and>
                \<not> (0 < k \<and> ctx_done w ctx k)"
    and "\<not> (0 < n \<and> ctx_done w ctx n)"
    and "do_request w ctx (baseURL c @ ''/posts'') n = Response s b"
    and "400 \<le> s" "s \<le> 499" "s \<noteq> 429"
  shows
    "FetchPosts c w ctx =
       (Inl (FetchPostsFailed (ClientError s)), tries ctx (baseURL c @ ''/posts'') 0 (Suc n)) \<and>
     (n = 0 \<longrightarrow> snd (FetchPosts c w ctx) = [HttpGet ctx (baseURL c @ ''/posts'')])"
proof -
  let ?url = "baseURL c @ ''/posts''"
  have pre: "lastErr_of (do_request w ctx ?url k) \<noteq> None \<and> \<not> (0 < k \<and> ctx_done w ctx k)"
    if "k < n" for k
    using assms(3) that transient_lastErr_of [of "do_request w ctx ?url k"] by auto
  have "retryLoop w ctx ?url 3 n
          (if n = 0 then None else lastErr_of (do_request w ctx ?url (n - 1)))
        = (Inl (ClientError s), tries ctx ?url n (Suc 0))"
    using assms by (intro retryLoop_client_error [where b = b]) auto
  from FetchPosts_after_retries [OF assms(1) _ pre this] assms(2)
  have main: "FetchPosts c w ctx =
       (Inl (FetchPostsFailed (ClientError s)), tries ctx ?url 0 (Suc n))"
    using tries_snoc [of ctx ?url 0 n] by (simp del: tries.simps)
  then show ?thesis
    by simp
qed

text \<open>
  Claim C8, witness: a server that answers 404 gets exactly one request, and one that answers
  500 and then 404 gets exactly two.
\<close>

theorem FetchPosts_client_error_terminal_witness:
  "FetchPosts api (always (Response 404 (Posts []))) Background =
     (Inl (FetchPostsFailed (ClientError 404)), [HttpGet Background ''http://api/posts'']) \<and>
   FetchPosts api then_404 Background =
     (Inl (FetchPostsFailed (ClientError 404)),
      [HttpGet Background ''http://api/posts'', Sleep Second,
       HttpGet Background ''http://api/posts''])"
proof -
  have a: "FetchPosts api (always (Response 404 (Posts []))) Background =
     (Inl (FetchPostsFailed (ClientError 404)), [HttpGet Background ''http://api/posts''])"
  proof -
    have u: "\<not> bad_url (always (Response 404 (Posts []))) (baseURL api @ ''/posts'')"
      by simp
    have h: "\<forall>k<0. transient (do_request (always (Response 404 (Posts []))) Background
                         (baseURL api @ ''/posts'') k) \<noteq> None \<and>
                    \<not> (0 < k \<and> ctx_done (always (Response 404 (Posts []))) Background k)"
      by simp
    have n: "(0::nat) < 4"
      "\<not> (0 < (0::nat) \<and> ctx_done (always (Response 404 (Posts []))) Background 0)"
      by simp_all
    have r: "do_request (always (Response 404 (Posts []))) Background (baseURL api @ ''/posts'') 0 =
        Response 404 (Posts [])"
      by simp
    have s: "(400::int) \<le> 404" "(404::int) \<le> 499" "(404::int) \<noteq> 429"
      by simp_all
    from FetchPosts_client_error_terminal [OF u n(1) h n(2) r s] show ?thesis
      by (simp add: api_def)
  qed
  have b: "FetchPosts api then_404 Background =
     (Inl (FetchPostsFailed (ClientError 404)),
      [HttpGet Background ''http://api/posts'', Sleep Second,
       HttpGet Background ''http://api/posts''])"
  proof -
    have u: "\<not> bad_url then_404 (baseURL api @ ''/posts'')"
      by simp
    have h: "\<forall>k<1. transient (do_request then_404 Background (baseURL api @ ''/posts'') k) \<noteq> None \<and>
                    \<not> (0 < k \<and> ctx_done then_404 Background k)"
      by simp
    have n: "(1::nat) < 4" "\<not> (0 < (1::nat) \<and> ctx_done then_404 Background 1)"
      by simp_all
    have r: "do_request then_404 Background (baseURL api @ ''/posts'') 1 = Response 404 (Posts [])"
      by simp
    have s: "(400::int) \<le> 404" "(404::int) \<le> 499" "(404::int) \<noteq> 429"
      by simp_all
    from FetchPosts_client_error_terminal [OF u n(1) h n(2) r s] show ?thesis
      by (simp add: api_def backoff_123)
  qed
  from a b show ?thesis
    by (intro conjI)
qed

lemma retryLoop_next:
  assumes "int attempt \<le> maxRetries" "\<not> (0 < attempt \<and> ctx_done w ctx attempt)" "\<not> bad_url w url"
    and "lastErr_of (do_request w ctx url attempt) = Some e"
  shows "fst (retryLoop w ctx url maxRetries attempt lastErr) =
         fst (retryLoop w ctx url maxRetries (Suc attempt) (Some e))"
  using retryLoop_retry [OF assms, of lastErr] by simp

lemma retryLoop_Inr:
  "fst (retryLoop w ctx url maxRetries attempt lastErr) = Inr posts \<Longrightarrow>
   \<exists>k s. attempt \<le> k \<and> int k \<le> maxRetries \<and> 200 \<le> s \<and> s < 300 \<and>
         do_request w ctx url k = Response s (Posts posts)"
proof (induction "nat (maxRetries + 1 - int attempt)" arbitrary: attempt lastErr)
  case 0
  then have "maxRetries < int attempt"
    by simp
  with "0.prems" show ?case
    by (simp add: retryLoop_exhausted)
next
  case (Suc m)
  then have le: "int attempt \<le> maxRetries"
    by simp
  show ?case
  proof (cases "(0 < attempt \<and> ctx_done w ctx attempt) \<or> bad_url w url")
    case True
    show ?thesis
    proof (cases "0 < attempt \<and> ctx_done w ctx attempt")
      case True
      with le Suc.prems show ?thesis
        by (simp add: retryLoop_cancelled)
    next
      case False
      with True le Suc.prems show ?thesis
        by (simp add: retryLoop_bad_url)
    qed
  next
    case False
    show ?thesis
    proof (cases "lastErr_of (do_request w ctx url attempt)")
      case (Some e)
      with le False Suc.prems
      have "fst (retryLoop w ctx url maxRetries (Suc attempt) (Some e)) = Inr posts"
        by (simp add: retryLoop_next)
      moreover have "m = nat (maxRetries + 1 - int (Suc attempt))"
        using Suc.hyps(2) by simp
      ultimately obtain k s where "Suc attempt \<le> k" "int k \<le> maxRetries" "200 \<le> s" "s < 300"
        "do_request w ctx url k = Response s (Posts posts)"
        using Suc.hyps(1) by blast
      then show ?thesis
        by (intro exI [of _ k] exI [of _ s]) simp
    next
      case None
      then obtain s b where r: "do_request w ctx url attempt = Response s b"
        by (cases "do_request w ctx url attempt") simp_all
      show ?thesis
      proof (cases "200 \<le> s \<and> s < 300")
        case True
        with None r obtain ps where b: "b = Posts ps"
          by (cases b) simp_all
        with le False r True have "retryLoop w ctx url maxRetries attempt lastErr =
            (Inr ps, tries ctx url attempt (Suc 0))"
          by (intro retryLoop_success [where s = s]) auto
        with Suc.prems have "ps = posts"
          by simp
        with le r b True show ?thesis
          by (intro exI [of _ attempt] exI [of _ s]) simp
      next
        case out: False
        with None r have "400 \<le> s" "s < 500" "s \<noteq> 429"
          by (auto split: if_splits)
        with le False r have "retryLoop w ctx url maxRetries attempt lastErr =
            (Inl (ClientError s), tries ctx url attempt (Suc 0))"
          by (intro retryLoop_client_error [where b = b]) auto
        with Suc.prems show ?thesis
          by simp
      qed
    qed
  qed
qed

lemma retryLoop_Inl:
  assumes "\<not> bad_url w url"
  shows "fst (retryLoop w ctx url maxRetries attempt lastErr) = Inl e \<Longrightarrow>
   e = ContextErr ctx \<or> (\<exists>l. e = MaxRetriesExceeded l) \<or>
   (\<exists>k s b. attempt \<le> k \<and> int k \<le> maxRetries \<and> 400 \<le> s \<and> s < 500 \<and> s \<noteq> 429 \<and>
           do_request w ctx url k = Response s b \<and> e = ClientError s)"
proof (induction "nat (maxRetries + 1 - int attempt)" arbitrary: attempt lastErr)
  case 0
  then have "maxRetries < int attempt"
    by simp
  with "0.prems" show ?case
    by (auto simp: retryLoop_exhausted)
next
  case (Suc m)
  then have le: "int attempt \<le> maxRetries"
    by simp
  show ?case
  proof (cases "0 < attempt \<and> ctx_done w ctx attempt")
    case True
    with le Suc.prems show ?thesis
      by (simp add: retryLoop_cancelled)
  next
    case False
    show ?thesis
    proof (cases "lastErr_of (do_request w ctx url attempt)")
      case (Some e')
      with le False Suc.prems assms
      have "fst (retryLoop w ctx url maxRetries (Suc attempt) (Some e')) = Inl e"
        by (simp add: retryLoop_next)
      moreover have "m = nat (maxRetries + 1 - int (Suc attempt))"
        using Suc.hyps(2) by simp
      ultimately have "e = ContextErr ctx \<or> (\<exists>l. e = MaxRetriesExceeded l) \<or>
        (\<exists>k s b. Suc attempt \<le> k \<and> int k \<le> maxRetries \<and> 400 \<le> s \<and> s < 500 \<and> s \<noteq> 429 \<and>
           do_request w ctx url k = Response s b \<and> e = ClientError s)"
        using Suc.hyps(1) by blast
      then show ?thesis
        using Suc_leD by blast
    next
      case None
      then obtain s b where r: "do_request w ctx url attempt = Response s b"
        by (cases "do_request w ctx url attempt") simp_all
      show ?thesis
      proof (cases "200 \<le> s \<and> s < 300")
        case True
        with None r obtain ps where b: "b = Posts ps"
          by (cases b) simp_all
        with le False r True assms have "retryLoop w ctx url maxRetries attempt lastErr =
            (Inr ps, tries ctx url attempt (Suc 0))"
          by (intro retryLoop_success [where s = s]) auto
        with Suc.prems show ?thesis
          by simp
      next
        case out: False
        with None r have s: "400 \<le> s" "s < 500" "s \<noteq> 429"
          by (auto split: if_splits)
        with le False r assms have "retryLoop w ctx url maxRetries attempt lastErr =
            (Inl (ClientError s), tries ctx url attempt (Suc 0))"
          by (intro retryLoop_client_error [where b = b]) auto
        with Suc.prems have "e = ClientError s"
          by simp
        with le r s show ?thesis
          by blast
      qed
    qed
  qed
qed

lemma fst_FetchPosts:
  "fst (FetchPosts c w ctx) =
     (case fst (retryLoop w ctx (baseURL c @ ''/posts'') 3 0 None) of
        Inl err \<Rightarrow> Inl (FetchPostsFailed err) | Inr posts \<Rightarrow> Inr posts)"
  by (simp add: FetchPosts_unfold split: prod.splits sum.splits)

text \<open>
  Claim C10, with the label the code gives. A status below 200, from 300 to 399, or from 600 on
  is retried: when all four attempts get such a status the call makes four requests and returns
  the error of exhausted retries; the last failure it wraps is ``unexpected status code'' for a
  status below 400 and ``server error'' for a status from 600 on. Only a parsed 2xx response
  makes the call succeed, and the only reply that ends the call with its own error is a status
  from 400 to 499 other than 429.
\<close>

theorem FetchPosts_other_status:
  assumes "\<not> bad_url w (baseURL c @ ''/posts'')"
  shows
    "((\<forall>k<4. do_request w ctx (baseURL c @ ''/posts'') k = Response (st k) (bd k) \<and>
              (st k < 200 \<or> (300 \<le> st k \<and> st k < 400) \<or> 600 \<le> st k) \<and>
              \<not> (0 < k \<and> ctx_done w ctx k)) \<longrightarrow>
        FetchPosts c w ctx =
          (Inl (FetchPostsFailed (MaxRetriesExceeded
                 (Some (if st 3 < 400 then UnexpectedStatus (st 3) else ServerError (st 3))))),
           tries ctx (baseURL c @ ''/posts'') 0 4)) \<and>
     (\<forall>posts. fst (FetchPosts c w ctx) = Inr posts \<longrightarrow>
        (\<exists>k s. k \<le> 3 \<and> 200 \<le> s \<and> s \<le> 299 \<and>
               do_request w ctx (baseURL c @ ''/posts'') k = Response s (Posts posts))) \<and>
     (\<forall>e. fst (FetchPosts c w ctx) = Inl (FetchPostsFailed e) \<longrightarrow>
        e = ContextErr ctx \<or> (\<exists>l. e = MaxRetriesExceeded l) \<or>
        (\<exists>k s b. k \<le> 3 \<and> 400 \<le> s \<and> s \<le> 499 \<and> s \<noteq> 429 \<and>
               do_request w ctx (baseURL c @ ''/posts'') k = Response s b \<and> e = ClientError s))"
proof (intro conjI allI impI)
  let ?url = "baseURL c @ ''/posts''"
  assume h: "\<forall>k<4. do_request w ctx ?url k = Response (st k) (bd k) \<and>
              (st k < 200 \<or> (300 \<le> st k \<and> st k < 400) \<or> 600 \<le> st k) \<and>
              \<not> (0 < k \<and> ctx_done w ctx k)"
  have pre: "lastErr_of (do_request w ctx ?url k) \<noteq> None \<and> \<not> (0 < k \<and> ctx_done w ctx k)"
    if "k < 4" for k
    using h that by auto
  have "(3::nat) < 4"
    by simp
  with h have "do_request w ctx ?url 3 = Response (st 3) (bd 3)"
    "st 3 < 200 \<or> (300 \<le> st 3 \<and> st 3 < 400) \<or> 600 \<le> st 3"
    by blast+
  then have last: "lastErr_of (do_request w ctx ?url 3) =
      Some (if st 3 < 400 then UnexpectedStatus (st 3) else ServerError (st 3))"
    by auto
  have "retryLoop w ctx ?url 3 4
          (if (4::nat) = 0 then None else lastErr_of (do_request w ctx ?url (4 - 1)))
        = (Inl (MaxRetriesExceeded
                 (Some (if st 3 < 400 then UnexpectedStatus (st 3) else ServerError (st 3)))), [])"
    using last by (simp add: retryLoop_exhausted)
  from FetchPosts_after_retries [OF assms _ pre this]
  show "FetchPosts c w ctx =
          (Inl (FetchPostsFailed (MaxRetriesExceeded
                 (Some (if st 3 < 400 then UnexpectedStatus (st 3) else ServerError (st 3))))),
           tries ctx ?url 0 4)"
    by (simp del: tries.simps)
next
  fix posts
  assume "fst (FetchPosts c w ctx) = Inr posts"
  then have "fst (retryLoop w ctx (baseURL c @ ''/posts'') 3 0 None) = Inr posts"
    by (simp add: fst_FetchPosts split: sum.splits)
  from retryLoop_Inr [OF this]
  show "\<exists>k s. k \<le> 3 \<and> 200 \<le> s \<and> s \<le> 299 \<and>
               do_request w ctx (baseURL c @ ''/posts'') k = Response s (Posts posts)"
    by fastforce
next
  fix e
  assume "fst (FetchPosts c w ctx) = Inl (FetchPostsFailed e)"
  then have "fst (retryLoop w ctx (baseURL c @ ''/posts'') 3 0 None) = Inl e"
    by (simp add: fst_FetchPosts split: sum.splits)
  from retryLoop_Inl [OF assms this]
  show "e = ContextErr ctx \<or> (\<exists>l. e = MaxRetriesExceeded l) \<or>
        (\<exists>k s b. k \<le> 3 \<and> 400 \<le> s \<and> s \<le> 499 \<and> s \<noteq> 429 \<and>
               do_request w ctx (baseURL c @ ''/posts'') k = Response s b \<and> e = ClientError s)"
    by fastforce
qed

text \<open>
  Claim C10, witness: a server that always answers 302 gets four requests; the call that
  succeeds has got a 2xx reply; the call that ends with a client error has got a 404.
\<close>

theorem FetchPosts_other_status_witness:
  "FetchPosts api (always (Response 302 (Posts []))) Background =
     (Inl (FetchPostsFailed (MaxRetriesExceeded (Some (UnexpectedStatus 302)))),
      [HttpGet Background ''http://api/posts'', Sleep Second,
       HttpGet Background ''http://api/posts'', Sleep (2 * Second),
       HttpGet Background ''http://api/posts'', Sleep (4 * Second),
       HttpGet Background ''http://api/posts'']) \<and>
   (\<exists>k s. k \<le> 3 \<and> 200 \<le> s \<and> s \<le> 299 \<and>
          do_request quiet Background (baseURL api @ ''/posts'') k = Response s (Posts [])) \<and>
   (\<exists>k s b. k \<le> 3 \<and> 400 \<le> s \<and> s \<le> 499 \<and> s \<noteq> 429 \<and>
          do_request (always (Response 404 (Posts []))) Background (baseURL api @ ''/posts'') k =
            Response s b \<and>
          ClientError 404 = ClientError s)"
proof -
  have a: "FetchPosts api (always (Response 302 (Posts []))) Background =
     (Inl (FetchPostsFailed (MaxRetriesExceeded (Some (UnexpectedStatus 302)))),
      [HttpGet Background ''http://api/posts'', Sleep Second,
       HttpGet Background ''http://api/posts'', Sleep (2 * Second),
       HttpGet Background ''http://api/posts'', Sleep (4 * Second),
       HttpGet Background ''http://api/posts''])"
  proof -
    have u: "\<not> bad_url (always (Response 302 (Posts []))) (baseURL api @ ''/posts'')"
      by simp
    from FetchPosts_other_status [OF u, where ctx = Background and st = "\<lambda>k. 302"
        and bd = "\<lambda>k. Posts []"]
    show ?thesis
      by (simp add: api_def tries_4 del: tries.simps)
  qed
  have b: "\<exists>k s. k \<le> 3 \<and> 200 \<le> s \<and> s \<le> 299 \<and>
          do_request quiet Background (baseURL api @ ''/posts'') k = Response s (Posts [])"
  proof -
    have u: "\<not> bad_url quiet (baseURL api @ ''/posts'')"
      by (simp add: quiet_def)
    have f: "fst (FetchPosts api quiet Background) = Inr []"
      by code_simp
    from FetchPosts_other_status [OF u, where ctx = Background] f show ?thesis
      by blast
  qed
  have c: "\<exists>k s b. k \<le> 3 \<and> 400 \<le> s \<and> s \<le> 499 \<and> s \<noteq> 429 \<and>
          do_request (always (Response 404 (Posts []))) Background (baseURL api @ ''/posts'') k =
            Response s b \<and>
          ClientError 404 = ClientError s"
  proof -
    have u: "\<not> bad_url (always (Response 404 (Posts []))) (baseURL api @ ''/posts'')"
      by simp
    have f: "fst (FetchPosts api (always (Response 404 (Posts []))) Background) =
        Inl (FetchPostsFailed (ClientError 404))"
      by (simp add: FetchPosts_unfold retryLoop.simps api_def)
    from FetchPosts_other_status [OF u, where ctx = Background] f
    have "ClientError 404 = ContextErr Background \<or> (\<exists>l. ClientError 404 = MaxRetriesExceeded l) \<or>
        (\<exists>k s b. k \<le> 3 \<and> 400 \<le> s \<and> s \<le> 499 \<and> s \<noteq> 429 \<and>
          do_request (always (Response 404 (Posts []))) Background (baseURL api @ ''/posts'') k =
            Response s b \<and>
          ClientError 404 = ClientError s)"
      by blast
    then show ?thesis
      by simp
  qed
  from a b c show ?thesis
    by (intro conjI)
qed

text \<open>
  Claim C10 as it is written fails: the status 600 is outside 200--299, 4xx and 5xx, and the
  failure the call records for it is ``server error'', not ``unexpected status code''.
\<close>

theorem FetchPosts_status_600_counterexample:
  "FetchPosts api (always (Response 600 (Posts []))) Background =
     (Inl (FetchPostsFailed (MaxRetriesExceeded (Some (ServerError 600)))),
      [HttpGet Background ''http://api/posts'', Sleep Second,
       HttpGet Background ''http://api/posts'', Sleep (2 * Second),
       HttpGet Background ''http://api/posts'', Sleep (4 * Second),
       HttpGet Background ''http://api/posts'']) \<and>
   fst (FetchPosts api (always (Response 600 (Posts []))) Background) \<noteq>
     Inl (FetchPostsFailed (MaxRetriesExceeded (Some (UnexpectedStatus 600))))"
  by (simp add: FetchPosts_unfold retryLoop.simps api_def backoff_def Second_def)

section \<open>The upsert\<close>

lemma UpsertItem_fails [simp]: "UpsertItem True now d item = (Some ExecError, d)"
  by (simp add: UpsertItem_def)

lemma UpsertItem_ok [simp]: "fst (UpsertItem False now d item) = None"
  by (simp add: UpsertItem_def)

lemma find_None_iff_notin: "find (\<lambda>r. ExternalID r = e) xs = None \<longleftrightarrow> e \<notin> set (map ExternalID xs)"
  by (induction xs) auto

lemma row_of_None_iff: "row_of e d = None \<longleftrightarrow> e \<notin> set (map ExternalID (rows d))"
  by (simp add: row_of_def find_None_iff_notin)

lemma row_of_Some: "row_of e d = Some r \<Longrightarrow> r \<in> set (rows d) \<and> ExternalID r = e"
  by (auto simp: row_of_def find_Some_iff)

lemma find_app:
  "find P (xs @ ys) = (case find P xs of None \<Rightarrow> find P ys | Some x \<Rightarrow> Some x)"
  by (induction xs) auto

lemma UpsertItem_insert:
  "row_of (ExternalID item) d = None \<Longrightarrow>
   snd (UpsertItem False now d item) =
     d\<lparr>rows := rows d @ [item\<lparr>ID := next_id d, CreatedAt := now, UpdatedAt := now\<rparr>],
       next_id := next_id d + 1\<rparr>"
  by (simp add: UpsertItem_def row_of_None_iff)

lemma UpsertItem_update:
  "row_of (ExternalID item) d = Some r \<Longrightarrow>
   snd (UpsertItem False now d item) =
     d\<lparr>rows := map (\<lambda>x. if ExternalID x = ExternalID item
                         then x\<lparr>Title := Title item, Body := Body item, UserID := UserID item,
                                UpdatedAt := now\<rparr>
                         else x) (rows d)\<rparr>"
  using row_of_None_iff [of "ExternalID item" d] by (simp add: UpsertItem_def)

lemma map_ExternalID_update:
  "map ExternalID (map (\<lambda>x. if ExternalID x = e then x\<lparr>Title := t, Body := b, UserID := u, UpdatedAt := n\<rparr> else x) xs)
   = map ExternalID xs"
  by (induction xs) auto

lemma UpsertItem_ids:
  "map ExternalID (rows (snd (UpsertItem fails now d item))) =
     (if fails \<or> ExternalID item \<in> set (map ExternalID (rows d)) then map ExternalID (rows d)
      else map ExternalID (rows d) @ [ExternalID item])"
  using map_ExternalID_update
    [where e = "ExternalID item" and t = "Title item" and b = "Body item" and u = "UserID item"
       and n = now and xs = "rows d"]
  by (simp add: UpsertItem_def del: map_map)

lemma UpsertItem_unique:
  "unique_external_id d \<Longrightarrow> unique_external_id (snd (UpsertItem fails now d item))"
  unfolding unique_external_id_def UpsertItem_ids by simp

lemma find_map_update:
  "find (\<lambda>r. ExternalID r = e) (map (\<lambda>x. if ExternalID x = e' then f x else x) xs) =
     (if e = e' then map_option f (find (\<lambda>r. ExternalID r = e) xs)
      else find (\<lambda>r. ExternalID r = e) xs)"
  if "\<And>x. ExternalID (f x) = ExternalID x"
  using that by (induction xs) auto

lemma row_of_UpsertItem_same:
  "row_of (ExternalID item) (snd (UpsertItem False now d item)) =
     Some (case row_of (ExternalID item) d of
             None \<Rightarrow> item\<lparr>ID := next_id d, CreatedAt := now, UpdatedAt := now\<rparr>
           | Some r \<Rightarrow> r\<lparr>Title := Title item, Body := Body item, UserID := UserID item,
                         UpdatedAt := now\<rparr>)"
proof (cases "row_of (ExternalID item) d")
  case None
  then have "find (\<lambda>r. ExternalID r = ExternalID item) (rows d) = None"
    by (simp add: row_of_def)
  with None show ?thesis
    by (simp add: UpsertItem_insert) (simp add: row_of_def find_app)
next
  case (Some r)
  then show ?thesis
    by (simp add: UpsertItem_update) (simp add: row_of_def find_map_update)
qed

lemma row_of_UpsertItem_other:
  "e \<noteq> ExternalID item \<Longrightarrow> row_of e (snd (UpsertItem fails now d item)) = row_of e d"
  by (auto simp: UpsertItem_def row_of_def find_map_update find_app split: option.splits)

lemma length_filter_distinct:
  "distinct (map ExternalID xs) \<Longrightarrow>
   length (filter (\<lambda>r. ExternalID r = e) xs) = (if e \<in> set (map ExternalID xs) then 1 else 0)"
  by (induction xs) (auto simp: filter_empty_conv)

lemma count_rows_unique:
  "unique_external_id d \<Longrightarrow> count_rows e d = (if row_of e d = None then 0 else 1)"
  unfolding unique_external_id_def count_rows_def row_of_None_iff
  by (simp only: length_filter_distinct) simp

lemma length_rows_UpsertItem_update:
  "row_of (ExternalID item) d = Some r \<Longrightarrow>
   length (rows (snd (UpsertItem fails now d item))) = length (rows d)"
  using row_of_None_iff [of "ExternalID item" d] by (simp add: UpsertItem_def)

text \<open>
  Claim C4. On a table that respects the unique key, an upsert whose statement succeeds
  returns no error; for a new external id it appends one row, created and updated now; for an
  existing one it overwrites title, body and user id and sets \<open>updated_at\<close>, leaving id,
  external id and \<open>created_at\<close> as they were, and adds no row; rows of other external ids are
  not touched. After it the external id has exactly one row, and a second upsert of the same
  item leaves exactly one row, changing nothing but \<open>updated_at\<close>.
\<close>

theorem UpsertItem_idempotent:
  assumes "unique_external_id d"
  shows
    "(let d1 = snd (UpsertItem False t1 d item); d2 = snd (UpsertItem False t2 d1 item) in
      fst (UpsertItem False t1 d item) = None \<and>
      (row_of (ExternalID item) d = None \<longrightarrow>
         rows d1 = rows d @ [item\<lparr>ID := next_id d, CreatedAt := t1, UpdatedAt := t1\<rparr>]) \<and>
      (\<forall>r. row_of (ExternalID item) d = Some r \<longrightarrow>
         row_of (ExternalID item) d1 =
           Some (r\<lparr>Title := Title item, Body := Body item, UserID := UserID item,
                   UpdatedAt := t1\<rparr>) \<and>
         length (rows d1) = length (rows d)) \<and>
      (\<forall>e. e \<noteq> ExternalID item \<longrightarrow> row_of e d1 = row_of e d) \<and>
      unique_external_id d1 \<and> count_rows (ExternalID item) d1 = 1 \<and>
      fst (UpsertItem False t2 d1 item) = None \<and>
      count_rows (ExternalID item) d2 = 1 \<and> length (rows d2) = length (rows d1) \<and>
      (\<exists>r1. row_of (ExternalID item) d1 = Some r1 \<and>
            row_of (ExternalID item) d2 = Some (r1\<lparr>UpdatedAt := t2\<rparr>)))"
proof -
  define d1 where "d1 = snd (UpsertItem False t1 d item)"
  define d2 where "d2 = snd (UpsertItem False t2 d1 item)"
  define r1 where "r1 = (case row_of (ExternalID item) d of
             None \<Rightarrow> item\<lparr>ID := next_id d, CreatedAt := t1, UpdatedAt := t1\<rparr>
           | Some r \<Rightarrow> r\<lparr>Title := Title item, Body := Body item, UserID := UserID item,
                         UpdatedAt := t1\<rparr>)"
  have r1: "row_of (ExternalID item) d1 = Some r1"
    unfolding d1_def r1_def by (rule row_of_UpsertItem_same)
  have same: "Title r1 = Title item" "Body r1 = Body item" "UserID r1 = UserID item"
    by (simp_all add: r1_def split: option.splits)
  have u1: "unique_external_id d1"
    unfolding d1_def using assms by (rule UpsertItem_unique)
  have u2: "unique_external_id d2"
    unfolding d2_def using u1 by (rule UpsertItem_unique)
  have r2: "row_of (ExternalID item) d2 = Some (r1\<lparr>UpdatedAt := t2\<rparr>)"
    unfolding d2_def using same by (simp add: row_of_UpsertItem_same r1)
  have ins: "rows d1 = rows d @ [item\<lparr>ID := next_id d, CreatedAt := t1, UpdatedAt := t1\<rparr>]"
    if "row_of (ExternalID item) d = None"
    unfolding d1_def using that by (simp add: UpsertItem_insert)
  have upd: "row_of (ExternalID item) d1 =
        Some (r\<lparr>Title := Title item, Body := Body item, UserID := UserID item, UpdatedAt := t1\<rparr>)
      \<and> length (rows d1) = length (rows d)"
    if "row_of (ExternalID item) d = Some r" for r
    using that r1 length_rows_UpsertItem_update [OF that, of False t1]
    by (simp add: r1_def d1_def)
  have other: "row_of e d1 = row_of e d" if "e \<noteq> ExternalID item" for e
    unfolding d1_def using that by (rule row_of_UpsertItem_other)
  have c1: "count_rows (ExternalID item) d1 = 1"
    using u1 r1 by (simp add: count_rows_unique)
  have c2: "count_rows (ExternalID item) d2 = 1"
    using u2 r2 by (simp add: count_rows_unique)
  have len2: "length (rows d2) = length (rows d1)"
    unfolding d2_def by (rule length_rows_UpsertItem_update [OF r1])
  show ?thesis
    unfolding Let_def d1_def [symmetric] d2_def [symmetric]
    using ins upd other u1 c1 c2 len2 r1 r2 by (simp add: UpsertItem_ok)
qed

text \<open>
  Claim C4, witness: the same item upserted twice into the empty table, at times 100 and 200,
  and another payload for its external id upserted at time 300.
\<close>

theorem UpsertItem_idempotent_witness:
  "unique_external_id empty_db \<and>
   count_rows (ExternalID item_A)
     (snd (UpsertItem False 200 (snd (UpsertItem False 100 empty_db item_A)) item_A)) = 1 \<and>
   rows (snd (UpsertItem False 200 (snd (UpsertItem False 100 empty_db item_A)) item_A)) =
     [item_A\<lparr>ID := 1, CreatedAt := 100, UpdatedAt := 200\<rparr>] \<and>
   row_of (ExternalID item_Z)
     (snd (UpsertItem False 300 (snd (UpsertItem False 100 empty_db item_A)) item_Z)) =
     Some (item_Z\<lparr>ID := 1, CreatedAt := 100, UpdatedAt := 300\<rparr>)"
proof -
  have u: "unique_external_id empty_db"
    by (simp add: unique_external_id_def empty_db_def)
  have "count_rows (ExternalID item_A)
     (snd (UpsertItem False 200 (snd (UpsertItem False 100 empty_db item_A)) item_A)) = 1"
    using UpsertItem_idempotent [OF u, of 100 item_A 200] by (simp add: Let_def)
  moreover have "rows (snd (UpsertItem False 200 (snd (UpsertItem False 100 empty_db item_A)) item_A)) =
     [item_A\<lparr>ID := 1, CreatedAt := 100, UpdatedAt := 200\<rparr>]"
    by (simp add: UpsertItem_def empty_db_def item_A_def)
  moreover have "row_of (ExternalID item_Z)
     (snd (UpsertItem False 300 (snd (UpsertItem False 100 empty_db item_A)) item_Z)) =
     Some (item_Z\<lparr>ID := 1, CreatedAt := 100, UpdatedAt := 300\<rparr>)"
  proof -
    have u1: "unique_external_id (snd (UpsertItem False 100 empty_db item_A))"
      using u by (rule UpsertItem_unique)
    have r: "row_of (ExternalID item_Z) (snd (UpsertItem False 100 empty_db item_A)) =
        Some (item_A\<lparr>ID := 1, CreatedAt := 100, UpdatedAt := 100\<rparr>)"
      by (simp add: UpsertItem_def empty_db_def item_A_def item_Z_def row_of_def)
    from UpsertItem_idempotent [OF u1, of 300 item_Z 300] r show ?thesis
      by (simp add: Let_def item_A_def item_Z_def)
  qed
  ultimately show ?thesis
    using u by (intro conjI)
qed

section \<open>\<open>strconv.Itoa\<close> is injective\<close>

lemma digit_char_inj: "a < 10 \<Longrightarrow> b < 10 \<Longrightarrow> char_of (48 + a :: nat) = char_of (48 + b) \<Longrightarrow> a = b"
  by (simp add: take_bit_eq_mod)

lemma digit_char_not_minus: "a < 10 \<Longrightarrow> char_of (48 + a :: nat) \<noteq> CHR ''-''"
  by (simp add: char_of_eq_iff take_bit_eq_mod)

lemma digits_not_Nil: "digits n \<noteq> []"
  by (subst digits.simps) simp

lemma digits_no_minus: "CHR ''-'' \<notin> set (digits n)"
proof (induction n rule: digits.induct)
  case (1 n)
  show ?case
  proof (cases "n < 10")
    case True
    then show ?thesis
      using digit_char_not_minus [of n] by (subst digits.simps) auto
  next
    case False
    then show ?thesis
      using "1.IH" digit_char_not_minus [of "n mod 10"] by (subst digits.simps) auto
  qed
qed

lemma digits_inj: "digits n = digits m \<Longrightarrow> n = m"
proof (induction n arbitrary: m rule: digits.induct)
  case (1 n)
  show ?case
  proof (cases "n < 10")
    case n: True
    show ?thesis
    proof (cases "m < 10")
      case True
      with n "1.prems" show ?thesis
        using digit_char_inj [of n m] by (simp add: digits.simps [of n] digits.simps [of m])
    next
      case False
      with n "1.prems" show ?thesis
        using digits_not_Nil [of "m div 10"] by (simp add: digits.simps [of n] digits.simps [of m])
    qed
  next
    case n: False
    show ?thesis
    proof (cases "m < 10")
      case True
      with n "1.prems" show ?thesis
        using digits_not_Nil [of "n div 10"] by (simp add: digits.simps [of n] digits.simps [of m])
    next
      case False
      with n "1.prems" have eq: "digits (n div 10) = digits (m div 10)"
        "char_of (48 + n mod 10) = (char_of (48 + m mod 10) :: char)"
        by (simp_all add: digits.simps [of n] digits.simps [of m])
      from n eq(1) have "n div 10 = m div 10"
        by (rule "1.IH")
      moreover from eq(2) have "n mod 10 = m mod 10"
        using digit_char_inj [of "n mod 10" "m mod 10"] by simp
      ultimately show ?thesis
        by (metis div_mult_mod_eq)
    qed
  qed
qed

lemma Itoa_inj: "Itoa i = Itoa j \<Longrightarrow> i = j"
proof -
  assume eq: "Itoa i = Itoa j"
  have hd: "hd (digits n) \<noteq> CHR ''-''" for n
    using digits_no_minus [of n] digits_not_Nil [of n] by (cases "digits n") auto
  show ?thesis
  proof (cases "i < 0")
    case i: True
    show ?thesis
    proof (cases "j < 0")
      case True
      with i eq have "nat (- i) = nat (- j)"
        by (simp add: Itoa_def digits_inj)
      with i True show ?thesis
        by simp
    next
      case False
      with i eq have "CHR ''-'' # digits (nat (- i)) = digits (nat j)"
        by (simp add: Itoa_def)
      then have "hd (digits (nat j)) = CHR ''-''"
        by (metis list.sel(1))
      with hd [of "nat j"] show ?thesis
        by simp
    qed
  next
    case i: False
    show ?thesis
    proof (cases "j < 0")
      case True
      with i eq have "digits (nat i) = CHR ''-'' # digits (nat (- j))"
        by (simp add: Itoa_def)
      then have "hd (digits (nat i)) = CHR ''-''"
        by (metis list.sel(1))
      with hd [of "nat i"] show ?thesis
        by simp
    next
      case False
      with i eq have "nat i = nat j"
        by (simp add: Itoa_def digits_inj)
      with i False show ?thesis
        by simp
    qed
  qed
qed

section \<open>The sync run\<close>

lemma execs_append [simp]: "execs (xs @ ys) = execs xs @ execs ys"
  by (induction xs rule: execs.induct) simp_all

lemma upsertLoop_Cons:
  "upsertLoop w k (sc, ec, d) (post # posts) =
     (if exec_fails w k then
        after [Exec (toItem post), Log (FailedToUpsertItem (ExternalID (toItem post)) ExecError)]
          (upsertLoop w (Suc k) (sc, Suc ec, d) posts)
      else
        after [Exec (toItem post)]
          (upsertLoop w (Suc k)
             (Suc sc, ec, snd (UpsertItem False (db_now w k) d (toItem post))) posts))"
  by (auto simp: UpsertItem_def Let_def)

lemma upsertLoop_fst:
  "fst (upsertLoop w k (sc, ec, d) posts) =
     (sc + length (filter (\<lambda>i. \<not> exec_fails w i) [k..<k + length posts]),
      ec + length (filter (exec_fails w) [k..<k + length posts]),
      stored w k d posts)"
proof (induction posts arbitrary: k sc ec d)
  case Nil
  show ?case by simp
next
  case (Cons post posts)
  have "k < k + length (post # posts)"
    by simp
  then have "[k..<k + length (post # posts)] = k # [Suc k..<k + length (post # posts)]"
    by (rule upt_conv_Cons)
  then have upt: "[k..<k + length (post # posts)] = k # [Suc k..<Suc k + length posts]"
    by simp
  show ?case
    unfolding upt upsertLoop_Cons
    by (simp add: Cons.IH)
qed

lemma upsertLoop_execs:
  "execs (snd (upsertLoop w k (sc, ec, d) posts)) = map toItem posts"
proof (induction posts arbitrary: k sc ec d)
  case Nil
  show ?case by simp
next
  case (Cons post posts)
  show ?case
    unfolding upsertLoop_Cons by (simp add: Cons.IH)
qed

lemma upsertLoop_no_redis:
  "filter is_redis (snd (upsertLoop w k (sc, ec, d) posts)) = []"
proof (induction posts arbitrary: k sc ec d)
  case Nil
  show ?case by simp
next
  case (Cons post posts)
  show ?case
    unfolding upsertLoop_Cons by (simp add: Cons.IH)
qed

lemma failures_append [simp]: "failures (xs @ ys) = failures xs + failures ys"
  by (induction xs rule: failures.induct) simp_all

lemma upsertLoop_failures:
  "failures (snd (upsertLoop w k (sc, ec, d) posts)) =
     length (filter (exec_fails w) [k..<k + length posts])"
proof (induction posts arbitrary: k sc ec d)
  case Nil
  show ?case by simp
next
  case (Cons post posts)
  have "k < k + length (post # posts)"
    by simp
  then have "[k..<k + length (post # posts)] = k # [Suc k..<k + length (post # posts)]"
    by (rule upt_conv_Cons)
  then have upt: "[k..<k + length (post # posts)] = k # [Suc k..<Suc k + length posts]"
    by simp
  show ?case
    unfolding upt upsertLoop_Cons by (simp add: Cons.IH)
qed

lemma succeeded_failed: "succeeded w n + failed w n = n"
  using sum_length_filter_compl [of "exec_fails w" "[0..<n]"] by (simp add: succeeded_def failed_def)

lemma stored_unique: "unique_external_id d \<Longrightarrow> unique_external_id (stored w k d posts)"
  by (induction posts arbitrary: k d) (simp_all add: UpsertItem_unique)

lemma row_of_UpsertItem_keeps:
  "row_of e d \<noteq> None \<Longrightarrow> row_of e (snd (UpsertItem fails now d item)) \<noteq> None"
  unfolding row_of_None_iff UpsertItem_ids by simp

lemma stored_keeps: "row_of e d \<noteq> None \<Longrightarrow> row_of e (stored w k d posts) \<noteq> None"
proof (induction posts arbitrary: k d)
  case Nil
  then show ?case by simp
next
  case (Cons post posts)
  from Cons.prems
  have "row_of e (snd (UpsertItem (exec_fails w k) (db_now w k) d (toItem post))) \<noteq> None"
    by (rule row_of_UpsertItem_keeps)
  then show ?case
    unfolding stored.simps by (rule Cons.IH)
qed

lemma stored_other:
  "e \<notin> set (map (\<lambda>p. Itoa (PostID p)) posts) \<Longrightarrow> row_of e (stored w k d posts) = row_of e d"
  by (induction posts arbitrary: k d) (auto simp: row_of_UpsertItem_other toItem_def)

lemma stored_row:
  assumes "i < length posts" "\<not> exec_fails w (k + i)"
  shows "\<exists>r. row_of (Itoa (PostID (posts ! i))) (stored w k d posts) = Some r \<and>
             (distinct (map PostID posts) \<longrightarrow>
                Title r = PostTitle (posts ! i) \<and> Body r = PostBody (posts ! i) \<and>
                UserID r = PostUserID (posts ! i))"
  using assms
proof (induction posts arbitrary: k d i)
  case Nil
  then show ?case by simp
next
  case (Cons post posts)
  let ?d = "snd (UpsertItem (exec_fails w k) (db_now w k) d (toItem post))"
  show ?case
  proof (cases i)
    case 0
    with Cons.prems have ok: "\<not> exec_fails w k"
      by simp
    let ?e = "Itoa (PostID post)"
    obtain r where r: "row_of ?e ?d = Some r" "Title r = PostTitle post" "Body r = PostBody post"
      "UserID r = PostUserID post"
      using ok row_of_UpsertItem_same [of "toItem post" "db_now w k" d]
      by (cases "row_of ?e d") (simp_all add: toItem_def)
    then have "row_of ?e (stored w (Suc k) ?d posts) \<noteq> None"
      by (intro stored_keeps) simp
    then obtain r' where r': "row_of ?e (stored w (Suc k) ?d posts) = Some r'"
      by auto
    have "r' = r" if "distinct (map PostID (post # posts))"
    proof -
      from that have "?e \<notin> set (map (\<lambda>p. Itoa (PostID p)) posts)"
        by (auto dest: Itoa_inj)
      then have "row_of ?e (stored w (Suc k) ?d posts) = row_of ?e ?d"
        by (rule stored_other)
      with r r' show ?thesis
        by simp
    qed
    with 0 r r' show ?thesis
      by auto
  next
    case (Suc j)
    with Cons.prems have "j < length posts" "\<not> exec_fails w (Suc k + j)"
      by simp_all
    from Cons.IH [OF this, of ?d] Suc show ?thesis
      by auto
  qed
qed

lemma list_all_tries: "list_all is_fetch (tries ctx url a n)"
  by (induction n arbitrary: a) simp_all

lemma retryLoop_cases:
  obtains (exhausted) "maxRetries < int attempt"
  | (cancelled) "int attempt \<le> maxRetries" "0 < attempt" "ctx_done w ctx attempt"
  | (bad_url) "int attempt \<le> maxRetries" "\<not> (0 < attempt \<and> ctx_done w ctx attempt)" "bad_url w url"
  | (retry) e where "int attempt \<le> maxRetries" "\<not> (0 < attempt \<and> ctx_done w ctx attempt)"
      "\<not> bad_url w url" "lastErr_of (do_request w ctx url attempt) = Some e"
  | (success) s posts where "int attempt \<le> maxRetries" "\<not> (0 < attempt \<and> ctx_done w ctx attempt)"
      "\<not> bad_url w url" "do_request w ctx url attempt = Response s (Posts posts)" "200 \<le> s" "s < 300"
  | (client_error) s b where "int attempt \<le> maxRetries" "\<not> (0 < attempt \<and> ctx_done w ctx attempt)"
      "\<not> bad_url w url" "do_request w ctx url attempt = Response s b" "400 \<le> s" "s < 500" "s \<noteq> 429"
proof (cases "lastErr_of (do_request w ctx url attempt)")
  case (Some e)
  with that(1-4) show ?thesis
    by (cases "maxRetries < int attempt") force+
next
  case None
  then obtain s b where r: "do_request w ctx url attempt = Response s b"
    by (cases "do_request w ctx url attempt") simp_all
  show ?thesis
  proof (cases "200 \<le> s \<and> s < 300")
    case True
    with None r obtain ps where "b = Posts ps"
      by (cases b) simp_all
    with True r that(1-3,5) show ?thesis
      by (cases "maxRetries < int attempt") force+
  next
    case False
    with None r have "400 \<le> s" "s < 500" "s \<noteq> 429"
      by (auto split: if_splits)
    with r that(1-3,6) show ?thesis
      by (cases "maxRetries < int attempt") force+
  qed
qed

lemma retryLoop_events: "list_all is_fetch (snd (retryLoop w ctx url maxRetries attempt lastErr))"
proof (induction "nat (maxRetries + 1 - int attempt)" arbitrary: attempt lastErr)
  case 0
  then show ?case
    by (simp add: retryLoop_exhausted)
next
  case (Suc m)
  show ?case
  proof (cases rule: retryLoop_cases
      [where maxRetries = maxRetries and attempt = attempt and w = w and ctx = ctx and url = url])
    case exhausted
    then show ?thesis
      by (simp add: retryLoop_exhausted)
  next
    case cancelled
    then show ?thesis
      by (simp add: retryLoop_cancelled)
  next
    case bad_url
    then show ?thesis
      by (simp add: retryLoop_bad_url)
  next
    case (retry e)
    have "m = nat (maxRetries + 1 - int (Suc attempt))"
      using Suc.hyps(2) by simp
    then have "list_all is_fetch (snd (retryLoop w ctx url maxRetries (Suc attempt) (Some e)))"
      by (rule Suc.hyps(1))
    then show ?thesis
      by (simp add: retryLoop_retry [OF retry] list_all_tries del: tries.simps)
  next
    case (success s posts)
    then show ?thesis
      by (simp add: retryLoop_success [OF success] list_all_tries del: tries.simps)
  next
    case (client_error s b)
    then show ?thesis
      by (simp add: retryLoop_client_error [OF client_error] list_all_tries del: tries.simps)
  qed
qed

lemma retryLoop_same_network:
  assumes "bad_url w' = bad_url w" "ctx_done w' = ctx_done w" "do_request w' = do_request w"
  shows "retryLoop w' ctx url maxRetries attempt lastErr =
         retryLoop w ctx url maxRetries attempt lastErr"
proof (induction "nat (maxRetries + 1 - int attempt)" arbitrary: attempt lastErr)
  case 0
  then show ?case
    by (simp add: retryLoop_exhausted)
next
  case (Suc m)
  show ?case
  proof (cases rule: retryLoop_cases
      [where maxRetries = maxRetries and attempt = attempt and w = w and ctx = ctx and url = url])
    case exhausted
    then show ?thesis
      by (simp add: retryLoop_exhausted)
  next
    case cancelled
    then show ?thesis
      by (simp add: retryLoop_cancelled assms)
  next
    case bad_url
    then show ?thesis
      by (simp add: retryLoop_bad_url assms)
  next
    case (retry e)
    have "m = nat (maxRetries + 1 - int (Suc attempt))"
      using Suc.hyps(2) by simp
    then have "retryLoop w' ctx url maxRetries (Suc attempt) (Some e) =
        retryLoop w ctx url maxRetries (Suc attempt) (Some e)"
      by (rule Suc.hyps(1))
    moreover have "retryLoop w' ctx url maxRetries attempt lastErr =
        after (tries ctx url attempt (Suc 0)) (retryLoop w' ctx url maxRetries (Suc attempt) (Some e))"
      using retry by (intro retryLoop_retry) (simp_all add: assms)
    ultimately show ?thesis
      by (simp only: retryLoop_retry [OF retry])
  next
    case (success s posts)
    moreover have "retryLoop w' ctx url maxRetries attempt lastErr =
        (Inr posts, tries ctx url attempt (Suc 0))"
      using success by (intro retryLoop_success [where s = s]) (simp_all add: assms)
    ultimately show ?thesis
      by (simp only: retryLoop_success [OF success])
  next
    case (client_error s b)
    moreover have "retryLoop w' ctx url maxRetries attempt lastErr =
        (Inl (ClientError s), tries ctx url attempt (Suc 0))"
      using client_error by (intro retryLoop_client_error [where b = b]) (simp_all add: assms)
    ultimately show ?thesis
      by (simp only: retryLoop_client_error [OF client_error])
  qed
qed

lemma execs_fetch: "list_all is_fetch es \<Longrightarrow> execs es = []"
  by (induction es rule: execs.induct) simp_all

lemma redis_fetch: "list_all is_fetch es \<Longrightarrow> filter is_redis es = []"
  by (induction es rule: execs.induct) simp_all

lemma snd_FetchPosts:
  "snd (FetchPosts c w ctx) = snd (retryLoop w ctx (baseURL c @ ''/posts'') 3 0 None)"
  by (cases "retryLoop w ctx (baseURL c @ ''/posts'') 3 0 None")
    (auto simp: FetchPosts_unfold split: sum.splits)

lemma FetchPosts_events: "list_all is_fetch (snd (FetchPosts c w ctx))"
  unfolding snd_FetchPosts by (rule retryLoop_events)

lemma FetchPosts_same_network:
  assumes "bad_url w' = bad_url w" "ctx_done w' = ctx_done w" "do_request w' = do_request w"
  shows "FetchPosts c w' ctx = FetchPosts c w ctx"
  by (simp only: FetchPosts_unfold retryLoop_same_network [OF assms])

lemma syncData_fetch_failed:
  assumes "fst (FetchPosts (client m) w (WithTimeout (mctx m) (2 * Minute))) = Inl e"
  shows "syncData w m s =
           (Some (FetchPostsFailed e), s,
            Log StartingDataSync # snd (FetchPosts (client m) w (WithTimeout (mctx m) (2 * Minute))))"
proof -
  obtain tr where "FetchPosts (client m) w (WithTimeout (mctx m) (2 * Minute)) = (Inl e, tr)"
    using assms by (cases "FetchPosts (client m) w (WithTimeout (mctx m) (2 * Minute))") simp
  then show ?thesis
    by (simp add: syncData_def)
qed

lemma syncData_fetched:
  assumes "fst (FetchPosts (client m) w (WithTimeout (mctx m) (2 * Minute))) = Inr posts"
  shows "syncData w m s =
           (if 0 < failed w (length posts)
            then Some (SyncErrors (failed w (length posts)) (length posts)) else None,
            \<lparr>db = stored w 0 (db s) posts,
             redis = fst (snd (invalidation w m (length posts) (redis s)))\<rparr>,
            Log StartingDataSync # snd (FetchPosts (client m) w (WithTimeout (mctx m) (2 * Minute))) @
            [Log (FetchedPosts (length posts))] @
            snd (upsertLoop w 0 (0, 0, db s) posts) @
            snd (snd (invalidation w m (length posts) (redis s))) @
            (case fst (invalidation w m (length posts) (redis s)) of
               None \<Rightarrow> [] | Some e \<Rightarrow> [Log (FailedToInvalidateCache e)]) @
            [Log (DataSyncCompleted (succeeded w (length posts)) (failed w (length posts)))])"
proof -
  obtain tr where f: "FetchPosts (client m) w (WithTimeout (mctx m) (2 * Minute)) = (Inr posts, tr)"
    using assms by (cases "FetchPosts (client m) w (WithTimeout (mctx m) (2 * Minute))") simp
  obtain tr2 where l: "upsertLoop w 0 (0, 0, db s) posts =
      ((succeeded w (length posts), failed w (length posts), stored w 0 (db s) posts), tr2)"
    using upsertLoop_fst [of w 0 0 0 "db s" posts]
    by (cases "upsertLoop w 0 (0, 0, db s) posts") (simp add: succeeded_def failed_def)
  obtain ierr rdb tr3 where i: "invalidation w m (length posts) (redis s) = (ierr, rdb, tr3)"
    by (cases "invalidation w m (length posts) (redis s)")
  have i': "(if 0 < succeeded w (length posts)
             then InvalidatePattern w (WithTimeout (mctx m) (2 * Minute)) ''items:*'' (redis s)
             else (None, redis s, [])) = (ierr, rdb, tr3)"
    using i by (simp only: invalidation_def)
  show ?thesis
    unfolding syncData_def Let_def f i
    by (simp add: l i')
qed

lemma InvalidatePattern_unfold:
  "InvalidatePattern w ctx pattern rdb =
     (if keys_fails w then (Some RedisError, rdb, [RedisKeys ctx pattern])
      else if KEYS pattern (redis_now w) rdb = [] then (None, rdb, [RedisKeys ctx pattern])
      else if del_fails w then
        (Some RedisError, rdb,
         [RedisKeys ctx pattern, RedisDel ctx (KEYS pattern (redis_now w) rdb)])
      else
        (None, DEL (KEYS pattern (redis_now w) rdb) rdb,
         [RedisKeys ctx pattern, RedisDel ctx (KEYS pattern (redis_now w) rdb)]))"
  by (simp add: InvalidatePattern_def Let_def)

lemma KEYS_DEL: "KEYS pattern now (DEL (KEYS pattern now rdb) rdb) = []"
  by (auto simp: KEYS_def DEL_def filter_empty_conv)

lemma GET_DEL_match:
  assumes "glob pattern key"
  shows "GET key now (DEL (KEYS pattern now rdb) rdb) = None"
proof (cases "find (\<lambda>e. fst e = key) (entries (DEL (KEYS pattern now rdb) rdb))")
  case None
  then show ?thesis
    by (simp add: GET_def)
next
  case (Some e)
  then have "e \<in> set (entries (DEL (KEYS pattern now rdb) rdb))" "fst e = key"
    by (auto simp: find_Some_iff)
  then have "e \<in> set (entries rdb)" "key \<notin> set (KEYS pattern now rdb)"
    by (auto simp: DEL_def)
  with \<open>fst e = key\<close> assms have "\<not> live now e"
    by (auto simp: KEYS_def)
  with Some show ?thesis
    by (simp add: GET_def)
qed

lemma find_filter_same:
  "(\<And>x. x \<in> set xs \<Longrightarrow> P x \<Longrightarrow> Q x) \<Longrightarrow> find P (filter Q xs) = find P xs"
  by (induction xs) auto

lemma GET_DEL_other:
  assumes "\<not> glob pattern key"
  shows "GET key now (DEL (KEYS pattern now rdb) rdb) = GET key now rdb"
proof -
  have "find (\<lambda>e. fst e = key) (filter (\<lambda>e. fst e \<notin> set (KEYS pattern now rdb)) (entries rdb)) =
        find (\<lambda>e. fst e = key) (entries rdb)"
    using assms by (intro find_filter_same) (auto simp: KEYS_def)
  then show ?thesis
    by (simp add: GET_def DEL_def)
qed

lemma filter_is_redis_fetch [simp]: "filter is_redis (snd (FetchPosts c w ctx)) = []"
  by (rule redis_fetch) (rule FetchPosts_events)

lemma execs_FetchPosts [simp]: "execs (snd (FetchPosts c w ctx)) = []"
  by (rule execs_fetch) (rule FetchPosts_events)

lemma no_Log_fetch: "list_all is_fetch es \<Longrightarrow> Log l \<notin> set es"
  by (induction es) auto

lemma failures_fetch: "list_all is_fetch es \<Longrightarrow> failures es = 0"
  by (induction es rule: failures.induct) simp_all

lemma failures_FetchPosts [simp]: "failures (snd (FetchPosts c w ctx)) = 0"
  by (rule failures_fetch) (rule FetchPosts_events)

text \<open>
  Claim C5. When the fetch fails, \<open>syncData\<close> returns at once with the fetch error wrapped: the
  store and the cache are as they were, the only events after the first log line are those of
  the fetch, so no upsert statement is sent, the outcome of the run is zero upserts succeeded
  and zero failed, no Redis command is sent, and no line of other counts is logged.
\<close>

theorem syncData_fetch_failure_aborts:
  assumes "fst (FetchPosts (client m) w (WithTimeout (mctx m) (2 * Minute))) = Inl e"
  shows
    "syncData w m s =
       (Some (FetchPostsFailed e), s,
        Log StartingDataSync # snd (FetchPosts (client m) w (WithTimeout (mctx m) (2 * Minute)))) \<and>
     execs (snd (snd (syncData w m s))) = [] \<and>
     outcome (snd (snd (syncData w m s))) = (0, 0) \<and>
     filter is_redis (snd (snd (syncData w m s))) = [] \<and>
     Log (DataSyncCompleted sc fc) \<notin> set (snd (snd (syncData w m s)))"
  using no_Log_fetch [OF FetchPosts_events, of "DataSyncCompleted sc fc" "client m" w
      "WithTimeout (mctx m) (2 * Minute)"]
  by (simp add: syncData_fetch_failed [OF assms] outcome_def)

lemma invalidation_no_execs [simp]: "execs (snd (snd (invalidation w m n rdb))) = []"
  by (simp add: invalidation_def InvalidatePattern_unfold)

lemma execs_case_log [simp]:
  "execs (case x of None \<Rightarrow> [] | Some e \<Rightarrow> [Log (FailedToInvalidateCache e)]) = []"
  by (cases x) simp_all

lemma redis_case_log [simp]:
  "filter is_redis (case x of None \<Rightarrow> [] | Some e \<Rightarrow> [Log (FailedToInvalidateCache e)]) = []"
  by (cases x) simp_all

lemma set_GetAllItems:
  "\<not> query_fails w \<Longrightarrow> \<exists>items. fst (GetAllItems w d) = Inr items \<and> set items = set (rows d)"
  by (simp add: GetAllItems_def)

text \<open>
  Claim C3. When the fetch returns \<open>M\<close> posts, the run sends exactly one upsert statement per
  post, in order, whether or not earlier ones failed; the outcome of the run and the counts
  of its last log line are the numbers of statements that succeeded and failed, and add up to
  \<open>M\<close>; the returned error is ``N errors out of M items'' when \<open>N > 0\<close> statements failed
  and nil otherwise; and every post whose statement succeeded has a row with its external id,
  which any successful \<open>GetAllItems\<close> lists, with the post's title, body and user id when the
  ids of the posts are distinct.
\<close>

theorem syncData_partial_failure:
  assumes "fst (FetchPosts (client m) w (WithTimeout (mctx m) (2 * Minute))) = Inr posts"
  shows
    "(case syncData w m s of (err, s', evs) \<Rightarrow>
        execs evs = map toItem posts \<and>
        outcome evs = (succeeded w (length posts), failed w (length posts)) \<and>
        succeeded w (length posts) + failed w (length posts) = length posts \<and>
        last evs = Log (DataSyncCompleted (succeeded w (length posts)) (failed w (length posts))) \<and>
        err = (if 0 < failed w (length posts)
               then Some (SyncErrors (failed w (length posts)) (length posts)) else None) \<and>
        (\<forall>i<length posts. \<not> exec_fails w i \<longrightarrow>
           (\<exists>r. row_of (Itoa (PostID (posts ! i))) (db s') = Some r \<and>
                (\<forall>w'. \<not> query_fails w' \<longrightarrow>
                   (\<exists>items. fst (GetAllItems w' (db s')) = Inr items \<and> r \<in> set items)) \<and>
                (distinct (map PostID posts) \<longrightarrow>
                   Title r = PostTitle (posts ! i) \<and> Body r = PostBody (posts ! i) \<and>
                   UserID r = PostUserID (posts ! i)))))"
proof -
  have rows: "\<exists>r. row_of (Itoa (PostID (posts ! i))) (stored w 0 (db s) posts) = Some r \<and>
                (\<forall>w'. \<not> query_fails w' \<longrightarrow>
                   (\<exists>items. fst (GetAllItems w' (stored w 0 (db s) posts)) = Inr items \<and>
                           r \<in> set items)) \<and>
                (distinct (map PostID posts) \<longrightarrow>
                   Title r = PostTitle (posts ! i) \<and> Body r = PostBody (posts ! i) \<and>
                   UserID r = PostUserID (posts ! i))"
    if "i < length posts" "\<not> exec_fails w i" for i
  proof -
    from that obtain r where r: "row_of (Itoa (PostID (posts ! i))) (stored w 0 (db s) posts) = Some r"
      "distinct (map PostID posts) \<longrightarrow>
         Title r = PostTitle (posts ! i) \<and> Body r = PostBody (posts ! i) \<and>
         UserID r = PostUserID (posts ! i)"
      using stored_row [of i posts w 0 "db s"] by auto
    from r(1) have "r \<in> set (rows (stored w 0 (db s) posts))"
      by (simp add: row_of_Some)
    then have "\<exists>items. fst (GetAllItems w' (stored w 0 (db s) posts)) = Inr items \<and> r \<in> set items"
      if "\<not> query_fails w'" for w'
      using set_GetAllItems [OF that, of "stored w 0 (db s) posts"] by auto
    with r show ?thesis
      by blast
  qed
  have inv: "failures (snd (snd (invalidation w m (length posts) (redis s)))) = 0"
    "failures (case fst (invalidation w m (length posts) (redis s)) of
                 None \<Rightarrow> [] | Some e \<Rightarrow> [Log (FailedToInvalidateCache e)]) = 0"
    by (simp_all add: invalidation_def InvalidatePattern_unfold split: option.splits)
  have "failures (snd (upsertLoop w 0 (0, 0, db s) posts)) = failed w (length posts)"
    by (simp add: upsertLoop_failures failed_def)
  moreover have "length posts - failed w (length posts) = succeeded w (length posts)"
    using succeeded_failed [of w "length posts"] by simp
  ultimately show ?thesis
    unfolding syncData_fetched [OF assms]
    using rows inv by (simp add: upsertLoop_execs succeeded_failed outcome_def)
qed

text \<open>
  Claim C2, as the code decides it: the error of a run is non-nil exactly when the fetch failed
  or at least one upsert failed.
\<close>

theorem syncData_error_iff:
  "(fst (syncData w m s) \<noteq> None) =
     (case fst (FetchPosts (client m) w (WithTimeout (mctx m) (2 * Minute))) of
        Inl e \<Rightarrow> True
      | Inr posts \<Rightarrow> 0 < failed w (length posts))"
proof (cases "fst (FetchPosts (client m) w (WithTimeout (mctx m) (2 * Minute)))")
  case (Inl e)
  then show ?thesis
    by (simp add: syncData_fetch_failed)
next
  case (Inr posts)
  then show ?thesis
    by (simp add: syncData_fetched)
qed

lemma selectors_second_fails [simp]:
  "bad_url second_fails url = False" "ctx_done second_fails ctx k = False"
  "do_request second_fails ctx url k = Response 200 (Posts [post_1, post_2])"
  "exec_fails second_fails k = (k = 1)" "db_now second_fails k = 1000 + int k"
  "keys_fails second_fails = False" "del_fails second_fails = False"
  "redis_now second_fails = 2000"
  by (simp_all add: second_fails_def always_def quiet_def)

lemma FetchPosts_second_fails:
  "FetchPosts api second_fails ctx = (Inr [post_1, post_2], [HttpGet ctx ''http://api/posts''])"
  by (simp add: FetchPosts_unfold retryLoop.simps api_def)

lemma FetchPosts_quiet:
  "FetchPosts api quiet ctx = (Inr [], [HttpGet ctx ''http://api/posts''])"
  by (simp add: FetchPosts_unfold retryLoop.simps api_def quiet_def)

lemma client_New [simp]: "client (New ''http://api'') = api" "mctx (New url) = WithCancel Background"
  by (simp_all add: New_def api_def)

lemma failed_second_fails:
  "failed second_fails (Suc (Suc 0)) = Suc 0" "succeeded second_fails (Suc (Suc 0)) = Suc 0"
  by (simp_all add: failed_def succeeded_def)

text \<open>
  Claim C2, witness: two posts, the second upsert fails, the run returns an error.
\<close>

theorem syncData_error_iff_witness:
  "fst (syncData second_fails (New ''http://api'') sys0) \<noteq> None"
  using syncData_error_iff [of second_fails "New ''http://api''" sys0]
  by (simp add: FetchPosts_second_fails failed_second_fails)

text \<open>
  Claim C2 as it is written fails in both directions. A run with one successful upsert out of
  two returns a non-nil error, with the row of the successful one stored; and a run that
  fetches no post, so processes zero records successfully, returns nil.
\<close>

theorem syncData_partial_success_counterexample:
  "fst (syncData second_fails (New ''http://api'') sys0) = Some (SyncErrors 1 2) \<and>
   succeeded second_fails 2 = 1 \<and>
   rows (db (fst (snd (syncData second_fails (New ''http://api'') sys0)))) =
     [\<lparr>ID = 1, ExternalID = ''1'', Title = ''A'', Body = ''b'', UserID = 1,
       CreatedAt = 1000, UpdatedAt = 1000\<rparr>] \<and>
   fst (syncData quiet (New ''http://api'') sys0) = None \<and>
   execs (snd (snd (syncData quiet (New ''http://api'') sys0))) = []"
  by code_simp

lemma failed_update [simp]:
  "failed (w\<lparr>keys_fails := a, del_fails := b\<rparr>) n = failed w n"
  "succeeded (w\<lparr>keys_fails := a, del_fails := b\<rparr>) n = succeeded w n"
  by (simp_all add: failed_def succeeded_def)

lemma stored_update [simp]:
  "stored (w\<lparr>keys_fails := a, del_fails := b\<rparr>) k d posts = stored w k d posts"
  by (induction posts arbitrary: k d) simp_all

lemma FetchPosts_update [simp]:
  "FetchPosts c (w\<lparr>keys_fails := a, del_fails := b\<rparr>) ctx = FetchPosts c w ctx"
  by (rule FetchPosts_same_network) simp_all

lemma syncData_result:
  "fst (syncData w m s) =
     (case fst (FetchPosts (client m) w (WithTimeout (mctx m) (2 * Minute))) of
        Inl e \<Rightarrow> Some (FetchPostsFailed e)
      | Inr posts \<Rightarrow>
          if 0 < failed w (length posts)
          then Some (SyncErrors (failed w (length posts)) (length posts)) else None)"
  "db (fst (snd (syncData w m s))) =
     (case fst (FetchPosts (client m) w (WithTimeout (mctx m) (2 * Minute))) of
        Inl e \<Rightarrow> db s
      | Inr posts \<Rightarrow> stored w 0 (db s) posts)"
  by (cases "fst (FetchPosts (client m) w (WithTimeout (mctx m) (2 * Minute)))";
      simp add: syncData_fetch_failed syncData_fetched)+

lemma syncData_redis_events:
  assumes "fst (FetchPosts (client m) w (WithTimeout (mctx m) (2 * Minute))) = Inr posts"
  shows "filter is_redis (snd (snd (syncData w m s))) =
           snd (snd (invalidation w m (length posts) (redis s)))"
    and "redis (fst (snd (syncData w m s))) = fst (snd (invalidation w m (length posts) (redis s)))"
    and "Log (FailedToInvalidateCache e) \<in> set (snd (snd (syncData w m s))) \<longleftrightarrow>
         fst (invalidation w m (length posts) (redis s)) = Some e"
proof -
  have inv: "filter is_redis (snd (snd (invalidation w m (length posts) (redis s)))) =
      snd (snd (invalidation w m (length posts) (redis s)))"
    "Log (FailedToInvalidateCache e) \<notin> set (snd (snd (invalidation w m (length posts) (redis s))))"
    by (simp_all add: invalidation_def InvalidatePattern_unfold)
  have loop: "Log (FailedToInvalidateCache e) \<notin> set (snd (upsertLoop w k (sc, ec, d) ps))"
    for k sc ec d ps
  proof (induction ps arbitrary: k sc ec d)
    case Nil
    show ?case by simp
  next
    case (Cons p ps)
    show ?case
      unfolding upsertLoop_Cons by (simp add: Cons.IH)
  qed
  show "filter is_redis (snd (snd (syncData w m s))) =
           snd (snd (invalidation w m (length posts) (redis s)))"
    by (simp add: syncData_fetched [OF assms] upsertLoop_no_redis inv)
  show "redis (fst (snd (syncData w m s))) = fst (snd (invalidation w m (length posts) (redis s)))"
    by (simp add: syncData_fetched [OF assms])
  show "Log (FailedToInvalidateCache e) \<in> set (snd (snd (syncData w m s))) \<longleftrightarrow>
         fst (invalidation w m (length posts) (redis s)) = Some e"
    using no_Log_fetch [OF FetchPosts_events, of "FailedToInvalidateCache e" "client m" w
        "WithTimeout (mctx m) (2 * Minute)"] inv(2) loop [of 0 0 0 "db s" posts]
    by (cases "fst (invalidation w m (length posts) (redis s))")
      (auto simp: syncData_fetched [OF assms])
qed

text \<open>
  Claim C9. After a fetch that succeeded: when at least one upsert succeeded, the first Redis
  command of the run is \<open>KEYS items:*\<close>; when neither it nor \<open>DEL\<close> fails, no live key matches
  the pattern afterwards, every matching key (the key of \<open>getItems\<close> among them) reads as a
  miss and every other key reads as before; when no key matches, nothing is deleted, the cache
  is unchanged and no failure is logged; when \<open>KEYS\<close> or \<open>DEL\<close> fails, the failure is
  logged and the cache is unchanged. When no upsert succeeded, no Redis command is sent and the
  cache is unchanged. The returned error and the table are the same whether or not \<open>KEYS\<close>
  or \<open>DEL\<close> fail.
\<close>

theorem syncData_invalidates_cache:
  assumes "fst (FetchPosts (client m) w (WithTimeout (mctx m) (2 * Minute))) = Inr posts"
  shows
    "(case syncData w m s of (err, s', evs) \<Rightarrow>
        (0 < succeeded w (length posts) \<longrightarrow>
           hd (filter is_redis evs) = RedisKeys (WithTimeout (mctx m) (2 * Minute)) ''items:*'' \<and>
           (\<not> keys_fails w \<and> \<not> del_fails w \<longrightarrow>
              KEYS ''items:*'' (redis_now w) (redis s') = [] \<and>
              GET itemsCacheKey (redis_now w) (redis s') = None \<and>
              (\<forall>key. glob ''items:*'' key \<longrightarrow> GET key (redis_now w) (redis s') = None) \<and>
              (\<forall>key. \<not> glob ''items:*'' key \<longrightarrow>
                 GET key (redis_now w) (redis s') = GET key (redis_now w) (redis s))) \<and>
           (\<not> keys_fails w \<and> KEYS ''items:*'' (redis_now w) (redis s) = [] \<longrightarrow>
              redis s' = redis s \<and>
              filter is_redis evs = [RedisKeys (WithTimeout (mctx m) (2 * Minute)) ''items:*''] \<and>
              (\<forall>e. Log (FailedToInvalidateCache e) \<notin> set evs)) \<and>
           (keys_fails w \<or> (KEYS ''items:*'' (redis_now w) (redis s) \<noteq> [] \<and> del_fails w) \<longrightarrow>
              redis s' = redis s \<and> Log (FailedToInvalidateCache RedisError) \<in> set evs)) \<and>
        (succeeded w (length posts) = 0 \<longrightarrow> redis s' = redis s \<and> filter is_redis evs = []) \<and>
        (\<forall>a b. fst (syncData (w\<lparr>keys_fails := a, del_fails := b\<rparr>) m s) = err \<and>
               db (fst (snd (syncData (w\<lparr>keys_fails := a, del_fails := b\<rparr>) m s))) = db s'))"
proof -
  let ?ctx = "WithTimeout (mctx m) (2 * Minute)"
  let ?inv = "invalidation w m (length posts) (redis s)"
  obtain err s' evs where run: "syncData w m s = (err, s', evs)"
    by (cases "syncData w m s")
  from syncData_redis_events [OF assms, where s = s] run
  have ev: "filter is_redis evs = snd (snd ?inv)" and rd: "redis s' = fst (snd ?inv)"
    and lg: "\<And>e. Log (FailedToInvalidateCache e) \<in> set evs \<longleftrightarrow> fst ?inv = Some e"
    by simp_all
  have same: "fst (syncData (w\<lparr>keys_fails := a, del_fails := b\<rparr>) m s) = err \<and>
              db (fst (snd (syncData (w\<lparr>keys_fails := a, del_fails := b\<rparr>) m s))) = db s'" for a b
    using syncData_result [of "w\<lparr>keys_fails := a, del_fails := b\<rparr>" m s]
      syncData_result [of w m s] run assms by simp
  have none: "redis s' = redis s \<and> filter is_redis evs = []" if "succeeded w (length posts) = 0"
    using that by (simp add: ev rd invalidation_def)
  have some: "hd (filter is_redis evs) = RedisKeys ?ctx ''items:*''"
    if "0 < succeeded w (length posts)"
    using that by (simp add: ev invalidation_def InvalidatePattern_unfold)
  have key: "glob ''items:*'' itemsCacheKey"
    by (simp add: itemsCacheKey_def)
  have cleared: "KEYS ''items:*'' (redis_now w) (redis s') = [] \<and>
      GET itemsCacheKey (redis_now w) (redis s') = None \<and>
      (\<forall>key. glob ''items:*'' key \<longrightarrow> GET key (redis_now w) (redis s') = None) \<and>
      (\<forall>key. \<not> glob ''items:*'' key \<longrightarrow>
         GET key (redis_now w) (redis s') = GET key (redis_now w) (redis s))"
    if "0 < succeeded w (length posts)" "\<not> keys_fails w" "\<not> del_fails w"
  proof (cases "KEYS ''items:*'' (redis_now w) (redis s) = []")
    case True
    with that have "redis s' = redis s"
      by (simp add: rd invalidation_def InvalidatePattern_unfold)
    moreover have "GET key (redis_now w) (redis s) = None" if "glob ''items:*'' key" for key
      using GET_DEL_match [OF that, of "redis_now w" "redis s"] True by (simp add: DEL_def)
    ultimately show ?thesis
      using True key by simp
  next
    case False
    with that have "redis s' = DEL (KEYS ''items:*'' (redis_now w) (redis s)) (redis s)"
      by (simp add: rd invalidation_def InvalidatePattern_unfold)
    then show ?thesis
      using key by (simp add: KEYS_DEL GET_DEL_match GET_DEL_other)
  qed
  have broken: "redis s' = redis s \<and> Log (FailedToInvalidateCache RedisError) \<in> set evs"
    if "0 < succeeded w (length posts)"
      "keys_fails w \<or> (KEYS ''items:*'' (redis_now w) (redis s) \<noteq> [] \<and> del_fails w)"
    using that by (auto simp: rd lg invalidation_def InvalidatePattern_unfold)
  have noop: "redis s' = redis s \<and> filter is_redis evs = [RedisKeys ?ctx ''items:*''] \<and>
      (\<forall>e. Log (FailedToInvalidateCache e) \<notin> set evs)"
    if "0 < succeeded w (length posts)" "\<not> keys_fails w"
      "KEYS ''items:*'' (redis_now w) (redis s) = []"
    using that by (simp add: ev rd lg invalidation_def InvalidatePattern_unfold)
  show ?thesis
    unfolding run using same none some cleared noop broken by simp
qed

text \<open>
  Claim C5, witness: a server that always answers 500.
\<close>

theorem syncData_fetch_failure_aborts_witness:
  "syncData (always (Response 500 (Posts []))) (New ''http://api'') sys0 =
     (Some (FetchPostsFailed (FetchPostsFailed (MaxRetriesExceeded (Some (ServerError 500))))),
      sys0,
      [Log StartingDataSync,
       HttpGet (WithTimeout (WithCancel Background) (2 * Minute)) ''http://api/posts'',
       Sleep Second,
       HttpGet (WithTimeout (WithCancel Background) (2 * Minute)) ''http://api/posts'',
       Sleep (2 * Second),
       HttpGet (WithTimeout (WithCancel Background) (2 * Minute)) ''http://api/posts'',
       Sleep (4 * Second),
       HttpGet (WithTimeout (WithCancel Background) (2 * Minute)) ''http://api/posts''])"
proof -
  have f: "FetchPosts api (always (Response 500 (Posts [])))
             (WithTimeout (WithCancel Background) (2 * Minute)) =
     (Inl (FetchPostsFailed (MaxRetriesExceeded (Some (ServerError 500)))),
      [HttpGet (WithTimeout (WithCancel Background) (2 * Minute)) ''http://api/posts'',
       Sleep Second,
       HttpGet (WithTimeout (WithCancel Background) (2 * Minute)) ''http://api/posts'',
       Sleep (2 * Second),
       HttpGet (WithTimeout (WithCancel Background) (2 * Minute)) ''http://api/posts'',
       Sleep (4 * Second),
       HttpGet (WithTimeout (WithCancel Background) (2 * Minute)) ''http://api/posts''])"
    by (simp add: FetchPosts_unfold retryLoop.simps api_def backoff_def Second_def)
  then have "fst (FetchPosts (client (New ''http://api'')) (always (Response 500 (Posts [])))
                   (WithTimeout (mctx (New ''http://api'')) (2 * Minute))) =
             Inl (FetchPostsFailed (MaxRetriesExceeded (Some (ServerError 500))))"
    by simp
  from syncData_fetch_failure_aborts [OF this, of sys0] show ?thesis
    by (simp add: f)
qed

text \<open>
  Claim C3, witness: ten posts are fetched and three upserts fail; the run reports 7 and 3,
  returns ``3 errors out of 10 items'', and the first post has its row.
\<close>

theorem syncData_partial_failure_witness:
  "fst (syncData three_fail (New ''http://api'') sys0) = Some (SyncErrors 3 10) \<and>
   outcome (snd (snd (syncData three_fail (New ''http://api'') sys0))) = (7, 3) \<and>
   last (snd (snd (syncData three_fail (New ''http://api'') sys0))) = Log (DataSyncCompleted 7 3) \<and>
   execs (snd (snd (syncData three_fail (New ''http://api'') sys0))) = map toItem ten_posts \<and>
   (\<exists>r. row_of (Itoa (PostID (ten_posts ! 0)))
           (db (fst (snd (syncData three_fail (New ''http://api'') sys0)))) = Some r \<and>
        Title r = PostTitle (ten_posts ! 0))"
proof -
  have f: "fst (FetchPosts (client (New ''http://api'')) three_fail
                  (WithTimeout (mctx (New ''http://api'')) (2 * Minute))) = Inr ten_posts"
    by code_simp
  have n: "length ten_posts = 10" "failed three_fail 10 = 3" "succeeded three_fail 10 = 7"
    "distinct (map PostID ten_posts)" "\<not> exec_fails three_fail 0"
    by code_simp+
  from syncData_partial_failure [OF f, of sys0]
  have *: "execs (snd (snd (syncData three_fail (New ''http://api'') sys0))) = map toItem ten_posts"
    "last (snd (snd (syncData three_fail (New ''http://api'') sys0))) = Log (DataSyncCompleted 7 3)"
    "fst (syncData three_fail (New ''http://api'') sys0) = Some (SyncErrors 3 10)"
    "outcome (snd (snd (syncData three_fail (New ''http://api'') sys0))) = (7, 3)"
    "\<forall>i<10. \<not> exec_fails three_fail i \<longrightarrow>
        (\<exists>r. row_of (Itoa (PostID (ten_posts ! i)))
                (db (fst (snd (syncData three_fail (New ''http://api'') sys0)))) = Some r \<and>
             (\<forall>w'. \<not> query_fails w' \<longrightarrow>
                (\<exists>items. fst (GetAllItems w'
                    (db (fst (snd (syncData three_fail (New ''http://api'') sys0))))) = Inr items \<and>
                  r \<in> set items)) \<and>
             (distinct (map PostID ten_posts) \<longrightarrow>
                Title r = PostTitle (ten_posts ! i) \<and> Body r = PostBody (ten_posts ! i) \<and>
                UserID r = PostUserID (ten_posts ! i)))"
    by (simp_all add: case_prod_unfold n)
  from *(5) n(4,5) have "\<exists>r. row_of (Itoa (PostID (ten_posts ! 0)))
           (db (fst (snd (syncData three_fail (New ''http://api'') sys0)))) = Some r \<and>
        Title r = PostTitle (ten_posts ! 0)"
    by (metis zero_less_numeral)
  with *(1-4) show ?thesis
    by blast
qed

text \<open>
  Claim C9, witness: a run with one successful upsert clears the key \<open>items:all\<close>; on an
  empty cache it sends \<open>KEYS\<close> only; when \<open>KEYS\<close> fails the cache is unchanged, the failure is
  logged and the error of the run is the same; a run whose upserts all fail leaves the cache
  alone.
\<close>

theorem syncData_invalidates_cache_witness:
  "hd (filter is_redis (snd (snd (syncData second_fails (New ''http://api'') sys0)))) =
     RedisKeys (WithTimeout (WithCancel Background) (2 * Minute)) ''items:*'' \<and>
   KEYS ''items:*'' 2000 (redis (fst (snd (syncData second_fails (New ''http://api'') sys0)))) = [] \<and>
   GET itemsCacheKey 2000 (redis (fst (snd (syncData second_fails (New ''http://api'') sys0)))) =
     None \<and>
   filter is_redis (snd (snd (syncData second_fails (New ''http://api'') cold))) =
     [RedisKeys (WithTimeout (WithCancel Background) (2 * Minute)) ''items:*''] \<and>
   redis (fst (snd (syncData keys_down (New ''http://api'') sys0))) = redis sys0 \<and>
   Log (FailedToInvalidateCache RedisError) \<in>
     set (snd (snd (syncData keys_down (New ''http://api'') sys0))) \<and>
   redis (fst (snd (syncData all_fail (New ''http://api'') sys0))) = redis sys0 \<and>
   filter is_redis (snd (snd (syncData all_fail (New ''http://api'') sys0))) = [] \<and>
   fst (syncData keys_down (New ''http://api'') sys0) =
     fst (syncData second_fails (New ''http://api'') sys0)"
proof -
  have f: "fst (FetchPosts (client (New ''http://api'')) second_fails
                  (WithTimeout (mctx (New ''http://api'')) (2 * Minute))) = Inr [post_1, post_2]"
    "fst (FetchPosts (client (New ''http://api'')) keys_down
                  (WithTimeout (mctx (New ''http://api'')) (2 * Minute))) = Inr [post_1, post_2]"
    "fst (FetchPosts (client (New ''http://api'')) all_fail
                  (WithTimeout (mctx (New ''http://api'')) (2 * Minute))) = Inr [post_1, post_2]"
    by code_simp+
  have n: "succeeded second_fails (length [post_1, post_2]) = 1"
    "succeeded keys_down (length [post_1, post_2]) = 1"
    "succeeded all_fail (length [post_1, post_2]) = 0"
    "\<not> keys_fails second_fails" "\<not> del_fails second_fails" "keys_fails keys_down"
    "redis_now second_fails = 2000"
    "KEYS ''items:*'' (redis_now second_fails) (redis cold) = []"
    by code_simp+
  have k: "second_fails\<lparr>keys_fails := True, del_fails := False\<rparr> = keys_down"
    by (simp add: keys_down_def second_fails_def always_def quiet_def)
  from syncData_invalidates_cache [OF f(1), of sys0] n(1,4,5,7)
  have a: "hd (filter is_redis (snd (snd (syncData second_fails (New ''http://api'') sys0)))) =
      RedisKeys (WithTimeout (WithCancel Background) (2 * Minute)) ''items:*''"
    "KEYS ''items:*'' 2000 (redis (fst (snd (syncData second_fails (New ''http://api'') sys0)))) = []"
    "GET itemsCacheKey 2000 (redis (fst (snd (syncData second_fails (New ''http://api'') sys0)))) =
       None"
    "\<forall>a b. fst (syncData (second_fails\<lparr>keys_fails := a, del_fails := b\<rparr>) (New ''http://api'') sys0) =
       fst (syncData second_fails (New ''http://api'') sys0)"
    by (simp_all add: case_prod_unfold)
  from a(4) have e: "fst (syncData keys_down (New ''http://api'') sys0) =
      fst (syncData second_fails (New ''http://api'') sys0)"
    unfolding k [symmetric] by blast
  from syncData_invalidates_cache [OF f(1), of cold] n(1,4,8)
  have b: "filter is_redis (snd (snd (syncData second_fails (New ''http://api'') cold))) =
      [RedisKeys (WithTimeout (WithCancel Background) (2 * Minute)) ''items:*'']"
    by (simp add: case_prod_unfold)
  from syncData_invalidates_cache [OF f(2), of sys0] n(2,6)
  have c: "redis (fst (snd (syncData keys_down (New ''http://api'') sys0))) = redis sys0"
    "Log (FailedToInvalidateCache RedisError) \<in>
       set (snd (snd (syncData keys_down (New ''http://api'') sys0)))"
    by (simp_all add: case_prod_unfold)
  from syncData_invalidates_cache [OF f(3), of sys0] n(3)
  have d: "redis (fst (snd (syncData all_fail (New ''http://api'') sys0))) = redis sys0"
    "filter is_redis (snd (snd (syncData all_fail (New ''http://api'') sys0))) = []"
    by (simp_all add: case_prod_unfold)
  from a(1-3) b c d e show ?thesis
    by (intro conjI)
qed

section \<open>The handlers\<close>

text \<open>
  Claim C6 fails on the code. \<open>SyncDataManual\<close> drops its context and calls \<open>syncData\<close>, which
  derives its own context from the manager's with a timeout of two minutes. Here the context
  of the caller, with its deadline of three minutes, is done at every backoff; the manual run
  still waits all three backoffs and sends all four requests, each under the manager's
  two-minute context.
\<close>

theorem SyncDataManual_ignores_caller_context:
  "snd (snd (Handler_syncData caller_gone \<lparr>jobManager = New ''http://api''\<rparr> sys0)) =
     [Log ManualSyncRequested, Log StartingDataSync,
      HttpGet (WithTimeout (WithCancel Background) (2 * Minute)) ''http://api/posts'',
      Sleep Second,
      HttpGet (WithTimeout (WithCancel Background) (2 * Minute)) ''http://api/posts'',
      Sleep (2 * Second),
      HttpGet (WithTimeout (WithCancel Background) (2 * Minute)) ''http://api/posts'',
      Sleep (4 * Second),
      HttpGet (WithTimeout (WithCancel Background) (2 * Minute)) ''http://api/posts'',
      Log (ManualSyncFailed
            (FetchPostsFailed (FetchPostsFailed (MaxRetriesExceeded (Some (ServerError 500))))))] \<and>
   ctx_done caller_gone (WithTimeout RequestContext (3 * Minute)) 1 \<and>
   Deadline (WithTimeout RequestContext (3 * Minute)) = Some (3 * Minute) \<and>
   Deadline (WithTimeout (WithCancel Background) (2 * Minute)) = Some (2 * Minute)"
  by code_simp

lemma GET_SET:
  "0 < ttl \<Longrightarrow>
   GET key t (SET key v ttl now rdb) = (if t < now + ttl then Some v else None)"
  by (simp add: GET_def SET_def live_def)

lemma getItems_hit:
  assumes "\<not> get_fails w" "GET itemsCacheKey (redis_now w) (redis s) = Some items"
  shows "getItems w s =
           (\<lparr>status = 200, x_cache = Some ''HIT'', json = ItemsPayload items (length items) True\<rparr>,
            s, [RedisGet (WithTimeout RequestContext (30 * Second)) itemsCacheKey, Log ItemsServedFromCache])"
  using assms by (simp add: getItems_def GetJSON_def Let_def)

lemma GetJSON_miss:
  assumes "get_fails w \<or> GET itemsCacheKey (redis_now w) (redis s) = None"
  shows "\<exists>e. GetJSON w ctx itemsCacheKey (redis s) = (Inl e, [RedisGet ctx itemsCacheKey])"
  using assms by (auto simp: GetJSON_def)

lemma getItems_miss_store_fails:
  assumes "get_fails w \<or> GET itemsCacheKey (redis_now w) (redis s) = None" "query_fails w"
  shows "getItems w s =
           (\<lparr>status = 500, x_cache = None,
             json = ErrorPayload ''failed to retrieve items'' QueryError\<rparr>,
            s, [RedisGet (WithTimeout RequestContext (30 * Second)) itemsCacheKey, Query, Log (FailedToGetItems QueryError)])"
proof -
  from GetJSON_miss [OF assms(1)] obtain e where
    "GetJSON w (WithTimeout RequestContext (30 * Second)) itemsCacheKey (redis s) =
       (Inl e, [RedisGet (WithTimeout RequestContext (30 * Second)) itemsCacheKey])"
    by blast
  with assms(2) show ?thesis
    by (simp add: getItems_def GetAllItems_def Let_def)
qed

lemma getItems_miss:
  assumes "get_fails w \<or> GET itemsCacheKey (redis_now w) (redis s) = None" "\<not> query_fails w"
  shows "getItems w s =
           (\<lparr>status = 200, x_cache = Some ''MISS'',
             json = ItemsPayload (rev (sort_key CreatedAt (rows (db s)))) (length (rows (db s)))
                      False\<rparr>,
            s\<lparr>redis := if set_fails w then redis s
                        else SET itemsCacheKey (rev (sort_key CreatedAt (rows (db s))))
                               (5 * Minute) (redis_now w) (redis s)\<rparr>,
            [RedisGet (WithTimeout RequestContext (30 * Second)) itemsCacheKey, Query,
             RedisSet (WithTimeout RequestContext (30 * Second)) itemsCacheKey (5 * Minute)] @
            (if set_fails w then [Log (FailedToCacheItems RedisError)] else []) @
            [Log (ItemsServedFromDatabase (length (rows (db s))))])"
proof -
  from GetJSON_miss [OF assms(1)] obtain e where
    "GetJSON w (WithTimeout RequestContext (30 * Second)) itemsCacheKey (redis s) =
       (Inl e, [RedisGet (WithTimeout RequestContext (30 * Second)) itemsCacheKey])"
    by blast
  with assms(2) show ?thesis
    by (simp add: getItems_def GetAllItems_def SetJSON_def itemsCacheTTL_def Let_def)
qed

text \<open>
  Claim C7. \<open>getItems\<close> reads the cache first. On a hit it answers 200 with the cached items,
  \<open>cached = true\<close> and \<open>X-Cache: HIT\<close>, sends no query and changes nothing. On a miss (the read
  fails or the key is absent or expired) it queries the store; when the query succeeds it
  answers 200 with the rows, \<open>cached = false\<close> and \<open>X-Cache: MISS\<close>, after one \<open>SET\<close> of the
  key with a ttl of five minutes: the key then reads as these rows until five minutes later
  when the \<open>SET\<close> succeeded, and the cache is unchanged when it failed. The answer is 500
  exactly when the cache missed and the query failed.
\<close>

theorem getItems_read_through:
  "(case getItems w s of (resp, s', evs) \<Rightarrow>
      (\<forall>items. \<not> get_fails w \<and> GET itemsCacheKey (redis_now w) (redis s) = Some items \<longrightarrow>
         resp = \<lparr>status = 200, x_cache = Some ''HIT'',
                 json = ItemsPayload items (length items) True\<rparr> \<and>
         s' = s \<and>
         evs = [RedisGet (WithTimeout RequestContext (30 * Second)) itemsCacheKey,
                Log ItemsServedFromCache]) \<and>
      (get_fails w \<or> GET itemsCacheKey (redis_now w) (redis s) = None \<longrightarrow>
         (\<not> query_fails w \<longrightarrow>
            resp = \<lparr>status = 200, x_cache = Some ''MISS'',
                    json = ItemsPayload (rev (sort_key CreatedAt (rows (db s))))
                             (length (rows (db s))) False\<rparr> \<and>
            db s' = db s \<and>
            filter is_redis evs =
              [RedisGet (WithTimeout RequestContext (30 * Second)) itemsCacheKey,
               RedisSet (WithTimeout RequestContext (30 * Second)) itemsCacheKey (5 * Minute)] \<and>
            Query \<in> set evs \<and>
            (\<not> set_fails w \<longrightarrow>
               (\<forall>t. GET itemsCacheKey t (redis s') =
                  (if t < redis_now w + 5 * Minute
                   then Some (rev (sort_key CreatedAt (rows (db s)))) else None))) \<and>
            (set_fails w \<longrightarrow> redis s' = redis s)) \<and>
         (query_fails w \<longrightarrow>
            resp = \<lparr>status = 500, x_cache = None,
                    json = ErrorPayload ''failed to retrieve items'' QueryError\<rparr> \<and>
            s' = s \<and> filter is_redis evs =
              [RedisGet (WithTimeout RequestContext (30 * Second)) itemsCacheKey])) \<and>
      (status resp = 500) =
        ((get_fails w \<or> GET itemsCacheKey (redis_now w) (redis s) = None) \<and> query_fails w))"
proof (cases "get_fails w \<or> GET itemsCacheKey (redis_now w) (redis s) = None")
  case miss: True
  show ?thesis
  proof (cases "query_fails w")
    case True
    with miss show ?thesis
      unfolding getItems_miss_store_fails [OF miss True] by auto
  next
    case False
    have "(0::int) < 5 * Minute"
      by (simp add: Minute_def Second_def)
    then have "GET itemsCacheKey t
        (SET itemsCacheKey (rev (sort_key CreatedAt (rows (db s)))) (5 * Minute) (redis_now w)
           (redis s)) =
        (if t < redis_now w + 5 * Minute then Some (rev (sort_key CreatedAt (rows (db s))))
         else None)" for t
      by (rule GET_SET)
    with miss False show ?thesis
      unfolding getItems_miss [OF miss False] by auto
  qed
next
  case False
  then obtain items where hit: "\<not> get_fails w"
    "GET itemsCacheKey (redis_now w) (redis s) = Some items"
    by auto
  show ?thesis
    unfolding getItems_hit [OF hit] using hit by simp
qed

text \<open>
  Claim C7, witness: a hit on a warm cache; a miss on a cold one, which fills it; a cache that
  is down, which is answered from the store; and a store that is down behind a cold cache.
\<close>

theorem getItems_read_through_witness:
  "fst (getItems quiet sys0) =
     \<lparr>status = 200, x_cache = Some ''HIT'', json = ItemsPayload [] 0 True\<rparr> \<and>
   snd (snd (getItems quiet sys0)) =
     [RedisGet (WithTimeout RequestContext (30 * Second)) itemsCacheKey,
      Log ItemsServedFromCache] \<and>
   fst (getItems quiet cold) =
     \<lparr>status = 200, x_cache = Some ''MISS'', json = ItemsPayload [] 0 False\<rparr> \<and>
   GET itemsCacheKey (redis_now quiet) (redis (fst (snd (getItems quiet cold)))) = Some [] \<and>
   fst (getItems cache_down sys0) =
     \<lparr>status = 200, x_cache = Some ''MISS'', json = ItemsPayload [] 0 False\<rparr> \<and>
   redis (fst (snd (getItems cache_down sys0))) = redis sys0 \<and>
   fst (getItems store_down cold) =
     \<lparr>status = 500, x_cache = None,
      json = ErrorPayload ''failed to retrieve items'' QueryError\<rparr>"
proof -
  have h: "\<not> get_fails quiet" "GET itemsCacheKey (redis_now quiet) (redis sys0) = Some []"
    "GET itemsCacheKey (redis_now quiet) (redis cold) = None" "\<not> query_fails quiet"
    "\<not> set_fails quiet" "rows (db cold) = []" "redis_now quiet < redis_now quiet + 5 * Minute"
    "get_fails cache_down" "set_fails cache_down" "\<not> query_fails cache_down"
    "rows (db sys0) = []"
    "GET itemsCacheKey (redis_now store_down) (redis cold) = None" "query_fails store_down"
    by code_simp+
  from getItems_read_through [of quiet sys0] h(1,2)
  have a: "fst (getItems quiet sys0) =
     \<lparr>status = 200, x_cache = Some ''HIT'', json = ItemsPayload [] 0 True\<rparr>"
    "snd (snd (getItems quiet sys0)) =
     [RedisGet (WithTimeout RequestContext (30 * Second)) itemsCacheKey,
      Log ItemsServedFromCache]"
    by (simp_all add: case_prod_unfold)
  from getItems_read_through [of quiet cold] h(1,3,4,5,6)
  have b: "fst (getItems quiet cold) =
     \<lparr>status = 200, x_cache = Some ''MISS'', json = ItemsPayload [] 0 False\<rparr>"
    "\<forall>t. GET itemsCacheKey t (redis (fst (snd (getItems quiet cold)))) =
       (if t < redis_now quiet + 5 * Minute then Some [] else None)"
    by (simp_all add: case_prod_unfold)
  from b(2) h(7) have b': "GET itemsCacheKey (redis_now quiet) (redis (fst (snd (getItems quiet cold)))) =
      Some []"
    by simp
  from getItems_read_through [of cache_down sys0] h(8,9,10,11)
  have c: "fst (getItems cache_down sys0) =
     \<lparr>status = 200, x_cache = Some ''MISS'', json = ItemsPayload [] 0 False\<rparr>"
    "redis (fst (snd (getItems cache_down sys0))) = redis sys0"
    by (simp_all add: case_prod_unfold)
  from getItems_read_through [of store_down cold] h(12,13)
  have d: "fst (getItems store_down cold) =
     \<lparr>status = 500, x_cache = None,
      json = ErrorPayload ''failed to retrieve items'' QueryError\<rparr>"
    by (simp add: case_prod_unfold)
  from a b(1) b' c d show ?thesis
    by (intro conjI)
qed

end
